theory Spec2Isabelle
  imports
    Main
    "HOL-Library.Word"
    "HOL-Library.List_Lexorder"
    "HOL-Library.Product_Lexorder"
    "HOL-Library.Multiset"
begin

unbundle bit_operations_syntax

chapter \<open>The static-site exporter of a forum scrape (tools/export_site.py)\<close>

section \<open>Python strings, bytes and exceptions\<close>

text \<open>
  A Python \<open>str\<close> is a sequence of Unicode code points: \<open>len\<close>, slicing and the
  regular expressions of the exporter all count code points, not bytes. A string is
  therefore a list of code points (natural numbers below \<open>0x110000\<close>); \<open>py ''abc''\<close>
  is the string of an ASCII literal. Lone surrogates (\<open>0xD800\<close> to \<open>0xDFFF\<close>) are
  legal members of a \<open>str\<close> (a YAML escape such as \<^verbatim>\<open>"\ud800"\<close> yields one) but
  have no UTF-8 encoding.
\<close>

type_synonym str = "nat list"
type_synonym byte = "8 word"
type_synonym u32 = "32 word"

abbreviation py :: "string \<Rightarrow> str" where
  "py s \<equiv> map of_char s"

datatype py_error = UnicodeEncodeError | AttributeError

text \<open>\<^verbatim>\<open>str.encode("utf-8")\<close>: raises at the first surrogate code point.\<close>

definition utf8_char :: "nat \<Rightarrow> py_error + byte list" where
  "utf8_char c =
     (if c < 0x80 then Inr [of_nat c]
      else if c < 0x800 then Inr [of_nat (0xC0 + c div 64), of_nat (0x80 + c mod 64)]
      else if 0xD800 \<le> c \<and> c < 0xE000 then Inl UnicodeEncodeError
      else if c < 0x10000 then
        Inr [of_nat (0xE0 + c div 4096), of_nat (0x80 + c div 64 mod 64),
             of_nat (0x80 + c mod 64)]
      else
        Inr [of_nat (0xF0 + c div 262144 mod 8), of_nat (0x80 + c div 4096 mod 64),
             of_nat (0x80 + c div 64 mod 64), of_nat (0x80 + c mod 64)])"

fun utf8_encode :: "str \<Rightarrow> py_error + byte list" where
  "utf8_encode [] = Inr []"
| "utf8_encode (c # cs) =
     (case utf8_char c of
        Inl e \<Rightarrow> Inl e
      | Inr bs \<Rightarrow> (case utf8_encode cs of Inl e \<Rightarrow> Inl e | Inr r \<Rightarrow> Inr (bs @ r)))"

section \<open>SHA-1 (\<^verbatim>\<open>hashlib.sha1(...).hexdigest()\<close>)\<close>

text \<open>
  The digest of FIPS 180: the message is padded with \<open>0x80\<close>, zero bytes and its
  length in bits as a 64-bit big-endian number, cut into blocks of sixteen 32-bit
  big-endian words, and each block is run through eighty rounds.
\<close>

definition rotl32 :: "nat \<Rightarrow> u32 \<Rightarrow> u32" where
  "rotl32 n w = push_bit n w OR drop_bit (32 - n) w"

definition be_bytes64 :: "nat \<Rightarrow> byte list" where
  "be_bytes64 n = map (\<lambda>i. of_nat (n div 2 ^ (8 * i))) [7, 6, 5, 4, 3, 2, 1, 0]"

definition sha1_pad :: "byte list \<Rightarrow> byte list" where
  "sha1_pad m =
     m @ [0x80] @ replicate ((119 - length m mod 64) mod 64) 0 @ be_bytes64 (8 * length m)"

fun be_words :: "byte list \<Rightarrow> u32 list" where
  "be_words (a # b # c # d # rest) =
     (push_bit 24 (ucast a) OR push_bit 16 (ucast b) OR push_bit 8 (ucast c) OR ucast d)
       # be_words rest"
| "be_words _ = []"

text \<open>The message schedule, newest word first: \<open>r ! 2\<close> is \<open>w[i - 3]\<close>.\<close>

primrec sha1_schedule :: "nat \<Rightarrow> u32 list \<Rightarrow> u32 list" where
  "sha1_schedule 0 r = r"
| "sha1_schedule (Suc n) r =
     sha1_schedule n (rotl32 1 (r ! 2 XOR r ! 7 XOR r ! 13 XOR r ! 15) # r)"

type_synonym sha1_state = "u32 \<times> u32 \<times> u32 \<times> u32 \<times> u32"

fun sha1_round :: "nat \<Rightarrow> u32 \<Rightarrow> sha1_state \<Rightarrow> sha1_state" where
  "sha1_round i w (a, b, c, d, e) =
     (let (f, k) =
        (if i < 20 then ((b AND c) OR (NOT b AND d), 0x5A827999)
         else if i < 40 then (b XOR c XOR d, 0x6ED9EBA1)
         else if i < 60 then ((b AND c) OR (b AND d) OR (c AND d), 0x8F1BBCDC)
         else (b XOR c XOR d, 0xCA62C1D6))
      in (rotl32 5 a + f + e + k + w, a, rotl32 30 b, c, d))"

fun sha1_rounds :: "nat \<Rightarrow> u32 list \<Rightarrow> sha1_state \<Rightarrow> sha1_state" where
  "sha1_rounds i [] s = s"
| "sha1_rounds i (w # ws) s = sha1_rounds (Suc i) ws (sha1_round i w s)"

definition sha1_block :: "sha1_state \<Rightarrow> u32 list \<Rightarrow> sha1_state" where
  "sha1_block h ws =
     (case h of (h0, h1, h2, h3, h4) \<Rightarrow>
        (case sha1_rounds 0 (rev (sha1_schedule 64 (rev ws))) h of
           (a, b, c, d, e) \<Rightarrow> (h0 + a, h1 + b, h2 + c, h3 + d, h4 + e)))"

fun blocks16 :: "nat \<Rightarrow> u32 list \<Rightarrow> u32 list list" where
  "blocks16 0 ws = []"
| "blocks16 (Suc n) ws = take 16 ws # blocks16 n (drop 16 ws)"

definition sha1 :: "byte list \<Rightarrow> sha1_state" where
  "sha1 m =
     (let ws = be_words (sha1_pad m)
      in foldl sha1_block (0x67452301, 0xEFCDAB89, 0x98BADCFE, 0x10325476, 0xC3D2E1F0)
           (blocks16 (length ws div 16) ws))"

definition hex_digit :: "nat \<Rightarrow> nat" where
  "hex_digit n = (if n < 10 then 48 + n else 87 + n)"

definition hex32 :: "u32 \<Rightarrow> str" where
  "hex32 w = map (\<lambda>i. hex_digit (unat (drop_bit (4 * i) w AND 15))) [7, 6, 5, 4, 3, 2, 1, 0]"

definition sha1_hexdigest :: "byte list \<Rightarrow> str" where
  "sha1_hexdigest m =
     (case sha1 m of (a, b, c, d, e) \<Rightarrow> hex32 a @ hex32 b @ hex32 c @ hex32 d @ hex32 e)"

section \<open>Content addressor: \<^verbatim>\<open>HASH_EXT_RE\<close> and \<^verbatim>\<open>hash_for_url\<close>\<close>

text \<open>
  \<^verbatim>\<open>HASH_EXT_RE = re.compile(r"(\.[^./?&=\-]{1,5})$")\<close>.
  The character class excludes \<open>.\<close> \<open>/\<close> \<open>?\<close> \<open>&\<close> \<open>=\<close> \<open>-\<close> and nothing else, so
  it accepts a line feed. Without \<^verbatim>\<open>re.MULTILINE\<close>, \<open>$\<close> matches at the end of the
  string and also just before a line feed that is the last character.
\<close>

definition ext_char :: "nat \<Rightarrow> bool" where
  "ext_char c \<longleftrightarrow> c \<notin> {46, 47, 63, 38, 61, 45}"

definition at_dollar :: "str \<Rightarrow> bool" where
  "at_dollar s \<longleftrightarrow> s = [] \<or> s = [10]"

text \<open>
  The greedy quantifier \<open>{1,5}\<close> first takes as many characters as it can and then
  gives them back one at a time until \<open>$\<close> matches: \<open>backtrack k rest\<close> tries the
  lengths \<open>k\<close>, \<open>k - 1\<close>, ..., \<open>1\<close> in that order.
\<close>

fun backtrack :: "nat \<Rightarrow> str \<Rightarrow> nat option" where
  "backtrack 0 rest = None"
| "backtrack (Suc k) rest =
     (if at_dollar (drop (Suc k) rest) then Some (Suc k) else backtrack k rest)"

text \<open>The pattern anchored at the head of \<open>s\<close>: the length of group 1 when it matches.\<close>

definition match_ext_here :: "str \<Rightarrow> nat option" where
  "match_ext_here s =
     (case s of
        [] \<Rightarrow> None
      | c # rest \<Rightarrow>
          if c \<noteq> 46 then None
          else map_option Suc (backtrack (min 5 (length (takeWhile ext_char rest))) rest))"

text \<open>\<^verbatim>\<open>HASH_EXT_RE.search\<close>: the leftmost start position wins; the result is the span
  \<open>(match.start(1), match.end(1))\<close>.\<close>

fun HASH_EXT_RE_search :: "str \<Rightarrow> (nat \<times> nat) option" where
  "HASH_EXT_RE_search [] = None"
| "HASH_EXT_RE_search (c # rest) =
     (case match_ext_here (c # rest) of
        Some n \<Rightarrow> Some (0, n)
      | None \<Rightarrow> map_option (\<lambda>(i, j). (Suc i, Suc j)) (HASH_EXT_RE_search rest))"

definition hash_for_url :: "str \<Rightarrow> py_error + str" where
  "hash_for_url url =
     (let (file_part, ext) =
        (case HASH_EXT_RE_search url of
           None \<Rightarrow> (url, [])
         | Some (i, j) \<Rightarrow> (take i url, take (j - i) (drop i url)))
      in case utf8_encode file_part of
           Inl e \<Rightarrow> Inl e
         | Inr bs \<Rightarrow> Inr (sha1_hexdigest bs @ ext))"

subsection \<open>The hashing rule in the words of the specification\<close>

text \<open>
  An extension is one dot followed by one to five characters that are not dot, slash,
  \<open>?\<close>, \<open>&\<close>, \<open>=\<close> or \<open>-\<close>; the extension of a URL is its trailing extension, if it has
  one, and empty otherwise. The hashed name is the SHA-1 hex digest of the UTF-8 bytes of
  what is left, followed by the extension.
\<close>

definition is_extension :: "str \<Rightarrow> bool" where
  "is_extension e \<longleftrightarrow>
     (case e of
        [] \<Rightarrow> False
      | c # body \<Rightarrow> c = 46 \<and> 1 \<le> length body \<and> length body \<le> 5 \<and> list_all ext_char body)"

definition spec_extension :: "str \<Rightarrow> str" where
  "spec_extension u =
     (case find is_extension (map (\<lambda>k. drop (length u - k) u) [2, 3, 4, 5, 6]) of
        None \<Rightarrow> []
      | Some e \<Rightarrow> e)"

definition spec_hashed_name :: "str \<Rightarrow> py_error + str" where
  "spec_hashed_name u =
     (let ext = spec_extension u
      in case utf8_encode (take (length u - length ext) u) of
           Inl e \<Rightarrow> Inl e
         | Inr bs \<Rightarrow> Inr (sha1_hexdigest bs @ ext))"

text \<open>The one shape of URL on which \<open>$\<close> matching before a final line feed shows: an
  extension with five characters after the dot, then one line feed.\<close>

definition ext_before_final_newline :: "str \<Rightarrow> bool" where
  "ext_before_final_newline u \<longleftrightarrow>
     7 \<le> length u \<and> last u = 10 \<and> is_extension (take 6 (drop (length u - 7) u))"

section \<open>Content addressor: \<^verbatim>\<open>ensure_local_asset\<close>\<close>

text \<open>
  The two directories are maps from file names to file contents: \<open>store_files\<close> is
  the scraper's \<^verbatim>\<open>store/files\<close>, read only, and \<open>export_files\<close> is the
  \<^verbatim>\<open>files\<close> directory of the export, which the function may extend. The function
  returns the path for the HTML, or \<open>None\<close>, together with the export directory after
  the call; an exception of \<^verbatim>\<open>hash_for_url\<close> passes through. The URL is optional
  because an attachment's \<^verbatim>\<open>href\<close> may be missing; \<^verbatim>\<open>not url\<close> holds for \<open>None\<close>
  and for the empty string. \<^verbatim>\<open>shutil.copy2\<close> copies the contents under the same
  name; \<^verbatim>\<open>mkdir(parents=True, exist_ok=True)\<close> leaves an existing directory as it is.
  Failures of the operating system (permissions, a full disk) are outside the model.
\<close>

definition ensure_local_asset ::
  "str option \<Rightarrow> (str \<rightharpoonup> 'f) \<Rightarrow> (str \<rightharpoonup> 'f) \<Rightarrow> py_error + (str option \<times> (str \<rightharpoonup> 'f))" where
  "ensure_local_asset url store_files export_files =
     (case url of
        None \<Rightarrow> Inr (None, export_files)
      | Some u \<Rightarrow>
          if u = [] then Inr (None, export_files)
          else
            (case hash_for_url u of
               Inl e \<Rightarrow> Inl e
             | Inr hashed_name \<Rightarrow>
                 (case store_files hashed_name of
                    None \<Rightarrow> Inr (None, export_files)
                  | Some content \<Rightarrow>
                      Inr (Some (py ''files/'' @ hashed_name),
                           if export_files hashed_name = None
                           then export_files(hashed_name \<mapsto> content)
                           else export_files))))"

section \<open>String operations of Python that the exporter uses\<close>

text \<open>
  Code points that occur below: 32 space, 34 \<open>"\<close>, 38 \<open>&\<close>, 39 \<open>'\<close>, 40 \<open>(\<close>,
  41 \<open>)\<close>, 44 \<open>,\<close>, 45 \<open>-\<close>, 46 \<open>.\<close>, 48 to 57 the digits, 59 \<open>;\<close>, 60 \<open><\<close>,
  62 \<open>>\<close>, 65 to 90 \<open>A\<close> to \<open>Z\<close>, 97 to 122 \<open>a\<close> to \<open>z\<close>.

  \<open>is_space\<close> is \<^verbatim>\<open>str.isspace\<close> on one character; \<^verbatim>\<open>str.strip()\<close> and the class
  \<^verbatim>\<open>\s\<close> of a \<open>str\<close> pattern both use it.
\<close>

definition is_space :: "nat \<Rightarrow> bool" where
  "is_space c \<longleftrightarrow>
     (9 \<le> c \<and> c \<le> 13) \<or> (28 \<le> c \<and> c \<le> 32) \<or> c = 133 \<or> c = 160 \<or> c = 5760 \<or>
     (8192 \<le> c \<and> c \<le> 8202) \<or> c = 8232 \<or> c = 8233 \<or> c = 8239 \<or> c = 8287 \<or> c = 12288"

definition lstrip :: "str \<Rightarrow> str" where
  "lstrip s = dropWhile is_space s"

definition rstrip :: "str \<Rightarrow> str" where
  "rstrip s = rev (dropWhile is_space (rev s))"

definition strip :: "str \<Rightarrow> str" where
  "strip s = rstrip (lstrip s)"

text \<open>\<^verbatim>\<open>s.rstrip(chars)\<close> and \<^verbatim>\<open>s.strip(chars)\<close> with an explicit set of characters.\<close>

definition rstrip_chars :: "nat list \<Rightarrow> str \<Rightarrow> str" where
  "rstrip_chars cs s = rev (dropWhile (\<lambda>c. c \<in> set cs) (rev s))"

definition strip_chars :: "nat list \<Rightarrow> str \<Rightarrow> str" where
  "strip_chars cs s = rstrip_chars cs (dropWhile (\<lambda>c. c \<in> set cs) s)"

definition endswith :: "str \<Rightarrow> str \<Rightarrow> bool" where
  "endswith s suffix \<longleftrightarrow>
     length suffix \<le> length s \<and> drop (length s - length suffix) s = suffix"

text \<open>\<^verbatim>\<open>s.find(c)\<close> for a character that occurs in \<open>s\<close>: the index of its first occurrence.\<close>

definition find_char :: "nat \<Rightarrow> str \<Rightarrow> nat" where
  "find_char c s = length (takeWhile (\<lambda>x. x \<noteq> c) s)"

definition count_char :: "nat \<Rightarrow> str \<Rightarrow> nat" where
  "count_char c s = length (filter (\<lambda>x. x = c) s)"

text \<open>\<^verbatim>\<open>s.replace(a, b)\<close> for single characters \<open>a\<close> and \<open>b\<close>.\<close>

definition replace_char :: "nat \<Rightarrow> nat \<Rightarrow> str \<Rightarrow> str" where
  "replace_char a b s = map (\<lambda>c. if c = a then b else c) s"

text \<open>
  \<^verbatim>\<open>s.replace(old, new)\<close> for a non-empty \<open>old\<close>: occurrences are replaced from left to
  right and do not overlap. The counter is the number of characters of the current
  occurrence that are still to be skipped.
\<close>

fun replace_from :: "nat \<Rightarrow> str \<Rightarrow> str \<Rightarrow> str \<Rightarrow> str" where
  "replace_from n old new [] = []"
| "replace_from (Suc n) old new (c # cs) = replace_from n old new cs"
| "replace_from 0 old new (c # cs) =
     (if old \<noteq> [] \<and> take (length old) (c # cs) = old
      then new @ replace_from (length old - 1) old new cs
      else c # replace_from 0 old new cs)"

definition replace_all :: "str \<Rightarrow> str \<Rightarrow> str \<Rightarrow> str" where
  "replace_all old new s = replace_from 0 old new s"

text \<open>
  An optional string is false in a condition when it is \<open>None\<close> or empty;
  \<^verbatim>\<open>x or default\<close> takes the default in both cases.
\<close>

definition truthy :: "str option \<Rightarrow> bool" where
  "truthy x \<longleftrightarrow> (case x of None \<Rightarrow> False | Some s \<Rightarrow> s \<noteq> [])"

definition or_else :: "str option \<Rightarrow> str \<Rightarrow> str" where
  "or_else x d = (case x of None \<Rightarrow> d | Some s \<Rightarrow> if s = [] then d else s)"

text \<open>\<^verbatim>\<open>html.escape(s)\<close> with its default \<^verbatim>\<open>quote=True\<close>.\<close>

definition html_escape :: "str \<Rightarrow> str" where
  "html_escape s =
     concat (map (\<lambda>c.
       if c = 38 then py ''&amp;''
       else if c = 60 then py ''&lt;''
       else if c = 62 then py ''&gt;''
       else if c = 34 then py ''&quot;''
       else if c = 39 then py ''&#x27;''
       else [c]) s)"

text \<open>The five characters that \<^verbatim>\<open>html.escape\<close> replaces.\<close>

definition html_special :: "nat \<Rightarrow> bool" where
  "html_special c \<longleftrightarrow> c \<in> {34, 38, 39, 60, 62}"

text \<open>Decimal numerals: \<^verbatim>\<open>str(n)\<close>, \<^verbatim>\<open>f"{n}"\<close> and, zero-padded, \<^verbatim>\<open>f"{n:02d}"\<close>.\<close>

fun str_of_nat :: "nat \<Rightarrow> str" where
  "str_of_nat n = (if n < 10 then [48 + n] else str_of_nat (n div 10) @ [48 + n mod 10])"

declare str_of_nat.simps [simp del]

definition str_of_int :: "int \<Rightarrow> str" where
  "str_of_int i = (if i < 0 then 45 # str_of_nat (nat (- i)) else str_of_nat (nat i))"

definition zpad :: "nat \<Rightarrow> nat \<Rightarrow> str" where
  "zpad w n = replicate (w - length (str_of_nat n)) 48 @ str_of_nat n"

section \<open>Library functions taken as parameters\<close>

text \<open>
  Three functions of the Python library rest on tables that are not part of the
  repository: \<^verbatim>\<open>str.lower\<close> (the Unicode case mapping), \<^verbatim>\<open>html.unescape\<close> (the table
  of named character references) and \<^verbatim>\<open>datetime.strptime\<close> (locale and format
  tables). The model takes them as parameters; \<open>dt_strptime L raw fmt\<close> is \<open>None\<close>
  when \<^verbatim>\<open>strptime\<close> raises \<^verbatim>\<open>ValueError\<close>. Every theorem below holds for all of them.
\<close>

record datetime =
  dt_year :: nat
  dt_month :: nat
  dt_day :: nat
  dt_hour :: nat
  dt_minute :: nat
  dt_second :: nat
  dt_microsecond :: nat

record pylib =
  py_lower :: "str \<Rightarrow> str"
  html_unescape :: "str \<Rightarrow> str"
  dt_strptime :: "str \<Rightarrow> str \<Rightarrow> datetime option"

text \<open>
  For the worked examples: the values of the three functions on the strings the examples
  use. \<^verbatim>\<open>str.lower\<close> on ASCII text, \<^verbatim>\<open>html.unescape\<close> on text without \<open>&\<close>, and
  \<^verbatim>\<open>strptime\<close> on two dates in the scraper's format.
\<close>

definition ascii_lower :: "str \<Rightarrow> str" where
  "ascii_lower s = map (\<lambda>c. if 65 \<le> c \<and> c \<le> 90 then c + 32 else c) s"

definition sample_strptime :: "str \<Rightarrow> str \<Rightarrow> datetime option" where
  "sample_strptime raw fmt =
     (if fmt = py ''%a %b %d %H:%M:%S %Y'' \<and> raw = py ''Mon Jan 01 10:30:00 2024''
      then Some \<lparr>dt_year = 2024, dt_month = 1, dt_day = 1, dt_hour = 10, dt_minute = 30,
                 dt_second = 0, dt_microsecond = 0\<rparr>
      else if fmt = py ''%a %b %d %H:%M:%S %Y'' \<and> raw = py ''Tue Mar 05 14:07:09 2024''
      then Some \<lparr>dt_year = 2024, dt_month = 3, dt_day = 5, dt_hour = 14, dt_minute = 7,
                 dt_second = 9, dt_microsecond = 0\<rparr>
      else None)"

definition sample_lib :: pylib where
  "sample_lib =
     \<lparr>py_lower = ascii_lower, html_unescape = (\<lambda>s. s), dt_strptime = sample_strptime\<rparr>"

section \<open>Dates: \<^verbatim>\<open>parse_date\<close> and the display formats\<close>

definition datetime_min :: datetime where
  "datetime_min =
     \<lparr>dt_year = 1, dt_month = 1, dt_day = 1, dt_hour = 0, dt_minute = 0, dt_second = 0,
      dt_microsecond = 0\<rparr>"

definition datetime_max :: datetime where
  "datetime_max =
     \<lparr>dt_year = 9999, dt_month = 12, dt_day = 31, dt_hour = 23, dt_minute = 59,
      dt_second = 59, dt_microsecond = 999999\<rparr>"

text \<open>Two \<^verbatim>\<open>datetime\<close> values compare as the tuples of their fields do.\<close>

type_synonym dt_tuple = "nat \<times> nat \<times> nat \<times> nat \<times> nat \<times> nat \<times> nat"

definition dt_tuple :: "datetime \<Rightarrow> dt_tuple" where
  "dt_tuple d =
     (dt_year d, dt_month d, dt_day d, dt_hour d, dt_minute d, dt_second d, dt_microsecond d)"

text \<open>
  \<^verbatim>\<open>parse_date\<close> tries the two formats in order; the first that parses wins. A
  \<^verbatim>\<open>datetime\<close> is never false in a condition, so \<^verbatim>\<open>if not timestamp\<close> below tests for
  \<open>None\<close> only.
\<close>

definition parse_date :: "pylib \<Rightarrow> str option \<Rightarrow> datetime option" where
  "parse_date L raw =
     (case raw of
        None \<Rightarrow> None
      | Some r \<Rightarrow>
          if r = [] then None
          else
            (case dt_strptime L r (py ''%a %b %d %H:%M:%S %Y'') of
               Some d \<Rightarrow> Some d
             | None \<Rightarrow>
                 (case dt_strptime L r (py ''%a %b %e %H:%M:%S %Y'') of
                    Some d \<Rightarrow> Some d
                  | None \<Rightarrow> None)))"

definition format_time_component :: "datetime \<Rightarrow> str" where
  "format_time_component timestamp =
     (let hour = (if dt_hour timestamp mod 12 = 0 then 12 else dt_hour timestamp mod 12);
          suffix = (if dt_hour timestamp < 12 then py ''AM'' else py ''PM'')
      in str_of_nat hour @ py '':'' @ zpad 2 (dt_minute timestamp) @ suffix)"

definition format_date_short :: "datetime option \<Rightarrow> str option" where
  "format_date_short timestamp =
     (case timestamp of
        None \<Rightarrow> None
      | Some t \<Rightarrow>
          Some (str_of_nat (dt_month t) @ py ''/'' @ zpad 2 (dt_day t) @ py ''/''
                  @ zpad 2 (dt_year t mod 100)))"

text \<open>\<^verbatim>\<open>strftime("%b")\<close> in the C locale.\<close>

definition month_abbr :: "nat \<Rightarrow> str" where
  "month_abbr m =
     (if 1 \<le> m \<and> m \<le> 12
      then [py ''Jan'', py ''Feb'', py ''Mar'', py ''Apr'', py ''May'', py ''Jun'', py ''Jul'',
            py ''Aug'', py ''Sep'', py ''Oct'', py ''Nov'', py ''Dec''] ! (m - 1)
      else [])"

definition format_card_timestamp :: "datetime option \<Rightarrow> str option" where
  "format_card_timestamp timestamp =
     (case timestamp of
        None \<Rightarrow> None
      | Some t \<Rightarrow>
          Some (month_abbr (dt_month t) @ py '' '' @ zpad 2 (dt_day t) @ py '', ''
                  @ str_of_nat (dt_year t) @ py '' '' @ format_time_component t))"

definition format_folder_date :: "datetime option \<Rightarrow> str" where
  "format_folder_date timestamp =
     (case timestamp of
        None \<Rightarrow> py ''Unknown''
      | Some t \<Rightarrow>
          zpad 2 (dt_month t) @ py ''/'' @ zpad 2 (dt_day t) @ py ''/'' @ zpad 4 (dt_year t))"

text \<open>
  \<^verbatim>\<open>render_thread_html\<close> shows the first and the last date of a thread as
  \<^verbatim>\<open>d.strftime("%b %d, %Y %I:%M %p") if d else "N/A"\<close>: \<^verbatim>\<open>%I\<close> is the hour of the
  twelve-hour clock in two digits, \<^verbatim>\<open>%p\<close> is \<open>AM\<close> or \<open>PM\<close>, and \<^verbatim>\<open>%Y\<close> is the year
  in decimal (glibc does not pad a year below 1000).
\<close>

definition thread_date_display :: "datetime option \<Rightarrow> str" where
  "thread_date_display d =
     (case d of
        None \<Rightarrow> py ''N/A''
      | Some t \<Rightarrow>
          month_abbr (dt_month t) @ py '' '' @ zpad 2 (dt_day t) @ py '', ''
            @ str_of_nat (dt_year t) @ py '' ''
            @ zpad 2 (if dt_hour t mod 12 = 0 then 12 else dt_hour t mod 12) @ py '':''
            @ zpad 2 (dt_minute t) @ py '' '' @ (if dt_hour t < 12 then py ''AM'' else py ''PM''))"

text \<open>
  The timestamp of a message header, from \<^verbatim>\<open>render_messages\<close>: the short date and the
  time when the date parses, the raw date string otherwise.
\<close>

definition message_timestamp_text :: "pylib \<Rightarrow> str option \<Rightarrow> str" where
  "message_timestamp_text L date =
     (let posted_raw = or_else date [];
          posted_dt = parse_date L (Some posted_raw);
          date_display =
            (case posted_dt of None \<Rightarrow> posted_raw | Some d \<Rightarrow> the (format_date_short (Some d)));
          time_display = (case posted_dt of None \<Rightarrow> [] | Some d \<Rightarrow> format_time_component d);
          timestamp_text = strip date_display
      in if time_display \<noteq> [] then timestamp_text @ py '' '' @ time_display
         else timestamp_text)"

section \<open>\<^verbatim>\<open>slugify\<close>, \<^verbatim>\<open>strip_html\<close> and \<^verbatim>\<open>build_snippet\<close>\<close>

definition slug_char :: "nat \<Rightarrow> bool" where
  "slug_char c \<longleftrightarrow> (97 \<le> c \<and> c \<le> 122) \<or> (48 \<le> c \<and> c \<le> 57)"

text \<open>\<^verbatim>\<open>re.sub(r"[^a-z0-9]+", "-", s)\<close>: every maximal run of other characters becomes
  one hyphen.\<close>

function sub_non_slug :: "str \<Rightarrow> str" where
  "sub_non_slug [] = []"
| "sub_non_slug (c # cs) =
     (if slug_char c then c # sub_non_slug cs
      else 45 # sub_non_slug (dropWhile (\<lambda>x. \<not> slug_char x) cs))"
  by pat_completeness auto
termination
  by (relation "measure length") (auto simp: less_Suc_eq_le length_dropWhile_le)

definition slugify :: "pylib \<Rightarrow> str \<Rightarrow> str" where
  "slugify L value =
     (if value = [] then py ''forum''
      else
        (let slug = strip_chars [45] (sub_non_slug (py_lower L value))
         in if slug = [] then py ''forum'' else slug))"

text \<open>
  \<^verbatim>\<open>STRIP_TAG_RE = re.compile(r"<[^>]+>")\<close>. After a \<open><\<close>, the class takes every
  character up to the next \<open>>\<close>; the pattern matches when there is at least one such
  character and a \<open>>\<close> follows. \<open>tag_rest_length rest\<close> is the number of characters
  of \<open>rest\<close> that the match then covers.
\<close>

definition tag_rest_length :: "str \<Rightarrow> nat option" where
  "tag_rest_length rest =
     (let n = length (takeWhile (\<lambda>c. c \<noteq> 62) rest)
      in if 1 \<le> n \<and> n < length rest then Some (Suc n) else None)"

function STRIP_TAG_RE_sub :: "str \<Rightarrow> str" where
  "STRIP_TAG_RE_sub [] = []"
| "STRIP_TAG_RE_sub (c # rest) =
     (if c = 60 then
        (case tag_rest_length rest of
           Some n \<Rightarrow> 32 # STRIP_TAG_RE_sub (drop n rest)
         | None \<Rightarrow> c # STRIP_TAG_RE_sub rest)
      else c # STRIP_TAG_RE_sub rest)"
  by pat_completeness auto
termination
  by (relation "measure length") auto

text \<open>\<^verbatim>\<open>re.sub(r"\s+", " ", s)\<close>.\<close>

function collapse_ws :: "str \<Rightarrow> str" where
  "collapse_ws [] = []"
| "collapse_ws (c # cs) =
     (if is_space c then 32 # collapse_ws (dropWhile is_space cs) else c # collapse_ws cs)"
  by pat_completeness auto
termination
  by (relation "measure length") (auto simp: less_Suc_eq_le length_dropWhile_le)

definition strip_html :: "pylib \<Rightarrow> str option \<Rightarrow> str" where
  "strip_html L text =
     (case text of
        None \<Rightarrow> []
      | Some t \<Rightarrow> strip (collapse_ws (html_unescape L (STRIP_TAG_RE_sub t))))"

text \<open>\<^verbatim>\<open>s.rsplit(" ", 1)[0]\<close>: what precedes the last space of \<open>s\<close>, or \<open>s\<close> itself
  when it has no space.\<close>

definition rsplit_space_head :: "str \<Rightarrow> str" where
  "rsplit_space_head s =
     (if 32 \<in> set s then rev (tl (dropWhile (\<lambda>c. c \<noteq> 32) (rev s))) else s)"

text \<open>The only caller passes no \<^verbatim>\<open>max_length\<close>, so it is 180; the bound is a natural
  number here.\<close>

definition build_snippet :: "pylib \<Rightarrow> str option \<Rightarrow> nat \<Rightarrow> str" where
  "build_snippet L text max_length =
     (let plain = strip_html L text
      in if length plain \<le> max_length then plain
         else
           (let truncated = strip (rsplit_space_head (take max_length plain));
                truncated = (if truncated = [] then strip (take max_length plain) else truncated);
                truncated =
                  (if endswith truncated [46] \<or> endswith truncated [44] \<or> endswith truncated [59]
                   then rstrip_chars [46, 44, 59] truncated
                   else truncated)
            in truncated @ py ''...''))"

section \<open>Names: \<^verbatim>\<open>format_name_html\<close>\<close>

text \<open>
  The first half of \<^verbatim>\<open>format_name_html\<close>: the primary name, the parenthetical extra
  and the status that the second half turns into markup.
\<close>

definition name_parts :: "pylib \<Rightarrow> str option \<Rightarrow> str option \<Rightarrow> str \<times> str \<times> str option" where
  "name_parts L name status =
     (let raw = strip (or_else name []);
          local_status = status;
          (primary, extra, local_status) =
            (if raw = [] then (py ''Unknown'', [], local_status)
             else
               (let (raw, local_status) =
                      (if \<not> truthy local_status \<and> endswith (py_lower L raw) (py '' unread'')
                       then (rstrip (take (length raw - length (py ''unread'')) raw),
                             Some (py ''unread''))
                       else (raw, local_status))
                in if endswith raw [41] \<and> 40 \<in> set raw then
                     (let idx = find_char 40 raw;
                          segment = strip (drop idx raw)
                      in if count_char 40 segment = count_char 41 segment
                         then (if strip (take idx raw) = [] then raw else strip (take idx raw),
                               segment, local_status)
                         else (raw, [], local_status))
                   else (raw, [], local_status)));
          local_status =
            (if truthy local_status \<and> py_lower L (the local_status) = py ''unread''
             then Some (py ''unread'')
             else local_status)
      in (primary, extra, local_status))"

definition format_name_html :: "pylib \<Rightarrow> str option \<Rightarrow> str \<Rightarrow> str option \<Rightarrow> str" where
  \<open>format_name_html L name primary_class status =
     (case name_parts L name status of
        (primary, extra, local_status) \<Rightarrow>
          (let primary_html =
                 py ''<span class="'' @ primary_class @ py ''">'' @ html_escape primary
                   @ py ''</span>'';
               extra_html =
                 (if extra \<noteq> []
                  then py '' <span class="msg-recipient-extra">'' @ html_escape extra
                         @ py ''</span>''
                  else []);
               status_html =
                 (if truthy local_status
                  then py '' <span class="msg-status">'' @ html_escape (the local_status)
                         @ py ''</span>''
                  else [])
           in primary_html @ extra_html @ status_html))\<close>

section \<open>Scraped records\<close>

text \<open>
  A thread record is the YAML file of one thread: the optional key \<^verbatim>\<open>thead_id\<close> (the
  exporter reads the key under this spelling), a metadata block and the messages. A field
  that the exporter reads with \<^verbatim>\<open>.get\<close> is optional; a list read with
  \<^verbatim>\<open>.get(...) or []\<close> is a list here, empty when the key is missing, except for the
  messages of a thread, where the two cases are kept apart.
\<close>

record attachment =
  att_href :: "str option"
  att_name :: "str option"
  att_size :: "str option"

record message =
  m_id :: "str option"
  m_from :: "str option"
  m_to :: "str option"
  m_from_status :: "str option"
  m_to_status :: "str option"
  m_date :: "str option"
  m_content :: "str option"
  m_images :: "str list"
  m_attachments :: "attachment list"
  m_in_reply_to :: "str option"

record metadata =
  md_topic :: "str option"
  md_folder :: "str option"
  md_views :: "str option"

record thread_data =
  td_thead_id :: "str option"
  td_metadata :: "metadata option"
  td_messages :: "message list option"

section \<open>Messages: \<^verbatim>\<open>render_messages\<close>\<close>

text \<open>
  A rendered message is kept as the parts that \<^verbatim>\<open>render_messages\<close> computes before it
  joins them into one \<^verbatim>\<open><article>\<close>: the anchor, the two names, the timestamp, the
  position \<open>i of N\<close>, the reference line, the body and the attachment links. The profile
  line under a message is not part of the model.
\<close>

record attachment_item =
  ai_href :: str
  ai_label :: str
  ai_size_text :: str
  ai_local :: bool

record rendered_message =
  rm_anchor :: str
  rm_author_html :: str
  rm_recipient_html :: str
  rm_timestamp_html :: str
  rm_index :: nat
  rm_total :: nat
  rm_mid :: str
  rm_reply_anchor :: "str option"
  rm_content_html :: str
  rm_attachments :: "attachment_item list"

definition message_anchor :: "message \<Rightarrow> str" where
  "message_anchor msg =
     (let mid = or_else (m_id msg) (py ''unknown'')
      in py ''msg-'' @ replace_char 46 45 mid)"

text \<open>
  One attachment. \<^verbatim>\<open>html.escape\<close> of \<open>None\<close> raises \<^verbatim>\<open>AttributeError\<close>: this
  happens to the label when both \<^verbatim>\<open>name\<close> and \<^verbatim>\<open>href\<close> are missing, and to the link
  target of a remote attachment whose \<^verbatim>\<open>href\<close> is missing.
\<close>

definition render_attachment ::
  "(str \<rightharpoonup> 'f) \<Rightarrow> attachment \<Rightarrow> (str \<rightharpoonup> 'f) \<Rightarrow> py_error + (attachment_item \<times> (str \<rightharpoonup> 'f))" where
  "render_attachment store_files attachment export_files =
     (let href = att_href attachment
      in case ensure_local_asset href store_files export_files of
           Inl e \<Rightarrow> Inl e
         | Inr (local, export_files') \<Rightarrow>
             (let link_target = (if truthy local then local else href);
                  label = (if truthy (att_name attachment) then att_name attachment else href)
              in case label of
                   None \<Rightarrow> Inl AttributeError
                 | Some label' \<Rightarrow>
                     (let label_text = html_escape label';
                          size_text =
                            (if truthy (att_size attachment)
                             then py '' ('' @ html_escape (the (att_size attachment)) @ py '')''
                             else [])
                      in if truthy local then
                           Inr (\<lparr>ai_href = py ''../'' @ the link_target, ai_label = label_text,
                                  ai_size_text = size_text, ai_local = True\<rparr>, export_files')
                         else
                           (case link_target of
                              None \<Rightarrow> Inl AttributeError
                            | Some target \<Rightarrow>
                                Inr (\<lparr>ai_href = html_escape target, ai_label = label_text,
                                       ai_size_text = size_text, ai_local = False\<rparr>,
                                     export_files')))))"

fun render_attachments ::
  "(str \<rightharpoonup> 'f) \<Rightarrow> attachment list \<Rightarrow> (str \<rightharpoonup> 'f) \<Rightarrow>
     py_error + (attachment_item list \<times> (str \<rightharpoonup> 'f))" where
  "render_attachments store_files [] export_files = Inr ([], export_files)"
| "render_attachments store_files (a # as) export_files =
     (case render_attachment store_files a export_files of
        Inl e \<Rightarrow> Inl e
      | Inr (item, export_files') \<Rightarrow>
          (case render_attachments store_files as export_files' of
             Inl e \<Rightarrow> Inl e
           | Inr (items, export_files'') \<Rightarrow> Inr (item # items, export_files'')))"

text \<open>The images of a message: each one that resolves is substituted in the body.\<close>

fun rewrite_images ::
  "(str \<rightharpoonup> 'f) \<Rightarrow> str list \<Rightarrow> str \<Rightarrow> (str \<rightharpoonup> 'f) \<Rightarrow> py_error + (str \<times> (str \<rightharpoonup> 'f))" where
  "rewrite_images store_files [] content_html export_files = Inr (content_html, export_files)"
| "rewrite_images store_files (image_url # urls) content_html export_files =
     (case ensure_local_asset (Some image_url) store_files export_files of
        Inl e \<Rightarrow> Inl e
      | Inr (local_image, export_files') \<Rightarrow>
          rewrite_images store_files urls
            (if truthy local_image
             then replace_all image_url (py ''../'' @ the local_image) content_html
             else content_html)
            export_files')"

definition render_message ::
  "pylib \<Rightarrow> (str \<rightharpoonup> 'f) \<Rightarrow> nat \<Rightarrow> nat \<Rightarrow> message \<Rightarrow> (str \<rightharpoonup> 'f) \<Rightarrow>
     py_error + (rendered_message \<times> (str \<rightharpoonup> 'f))" where
  "render_message L store_files index total_count msg export_files =
     (let mid = or_else (m_id msg) (py ''unknown'');
          anchor = message_anchor msg;
          raw_author = or_else (m_from msg) (py ''Unknown'');
          raw_recipient = or_else (m_to msg) (py ''All'');
          author_html =
            format_name_html L (Some raw_author) (py ''msg-author-name'') (m_from_status msg);
          recipient_html =
            format_name_html L (Some raw_recipient) (py ''msg-recipient-name'') (m_to_status msg);
          timestamp_html = html_escape (message_timestamp_text L (m_date msg));
          content_html = or_else (m_content msg) []
      in case render_attachments store_files (m_attachments msg) export_files of
           Inl e \<Rightarrow> Inl e
         | Inr (items, export_files') \<Rightarrow>
             (case rewrite_images store_files (m_images msg) content_html export_files' of
                Inl e \<Rightarrow> Inl e
              | Inr (content_html', export_files'') \<Rightarrow>
                  Inr (\<lparr>rm_anchor = anchor, rm_author_html = author_html,
                         rm_recipient_html = recipient_html, rm_timestamp_html = timestamp_html,
                         rm_index = index, rm_total = total_count, rm_mid = html_escape mid,
                         rm_reply_anchor =
                           (if truthy (m_in_reply_to msg)
                            then Some (py ''msg-'' @ replace_char 46 45 (the (m_in_reply_to msg)))
                            else None),
                         rm_content_html = content_html', rm_attachments = items\<rparr>,
                       export_files'')))"

text \<open>The loop over \<^verbatim>\<open>enumerate(messages, start=1)\<close>.\<close>

fun render_messages_from ::
  "pylib \<Rightarrow> (str \<rightharpoonup> 'f) \<Rightarrow> nat \<Rightarrow> nat \<Rightarrow> message list \<Rightarrow> (str \<rightharpoonup> 'f) \<Rightarrow>
     py_error + (rendered_message list \<times> (str \<rightharpoonup> 'f))" where
  "render_messages_from L store_files index total_count [] export_files = Inr ([], export_files)"
| "render_messages_from L store_files index total_count (msg # msgs) export_files =
     (case render_message L store_files index total_count msg export_files of
        Inl e \<Rightarrow> Inl e
      | Inr (r, export_files') \<Rightarrow>
          (case render_messages_from L store_files (Suc index) total_count msgs export_files' of
             Inl e \<Rightarrow> Inl e
           | Inr (rs, export_files'') \<Rightarrow> Inr (r # rs, export_files'')))"

definition render_messages ::
  "pylib \<Rightarrow> message list \<Rightarrow> (str \<rightharpoonup> 'f) \<Rightarrow> (str \<rightharpoonup> 'f) \<Rightarrow>
     py_error + (rendered_message list \<times> (str \<rightharpoonup> 'f))" where
  "render_messages L messages store_files export_files =
     render_messages_from L store_files 1 (length messages) messages export_files"

section \<open>Threads, folders and pages\<close>

text \<open>
  \<open>thread\<close> is the dictionary that \<^verbatim>\<open>main\<close> builds for a thread with messages and
  appends to \<^verbatim>\<open>threads\<close>; \<open>folder\<close> is a bucket of the folder view. A page is kept
  as the values that its template interpolates, in the order of the page; the fixed markup
  around them, the forum title and the generation time in the footer are left out.
\<close>

record thread =
  t_id :: str
  t_title :: str
  t_folder :: str
  t_folder_slug :: str
  t_views :: "str option"
  t_message_count :: int
  t_first_date :: "datetime option"
  t_last_date :: "datetime option"
  t_first_author :: "str option"
  t_snippet :: str

record folder =
  f_name :: str
  f_slug :: str
  f_threads :: "thread list"

record thread_page =
  tp_topic :: str
  tp_folder :: str
  tp_thread_id :: str
  tp_message_count :: int
  tp_views :: str
  tp_first_display :: str
  tp_last_display :: str
  tp_messages :: "rendered_message list"

record thread_card =
  tc_title :: str
  tc_link :: str
  tc_meta_author :: "str option"
  tc_snippet :: "str option"
  tc_stats_text :: str

record index_section =
  is_name :: str
  is_subtitle :: str
  is_href :: str
  is_cards :: "thread_card list"

record folder_row =
  row_thread_id :: str
  row_link :: str
  row_title :: str
  row_first_date :: str
  row_author :: str
  row_replies :: int

record folder_page =
  fp_name :: str
  fp_subtitle :: str
  fp_rows :: "folder_row list"

definition INDEX_THREADS_PER_FOLDER :: nat where
  "INDEX_THREADS_PER_FOLDER = 6"

definition pluralize :: "str \<Rightarrow> int \<Rightarrow> str" where
  "pluralize word n = (if n = 1 then word else word @ py ''s'')"

text \<open>\<^verbatim>\<open>sep.join(parts)\<close>.\<close>

fun join :: "str \<Rightarrow> str list \<Rightarrow> str" where
  "join sep [] = []"
| "join sep [p] = p"
| "join sep (p # q # ps) = p @ sep @ join sep (q # ps)"

definition render_thread_html :: "thread \<Rightarrow> rendered_message list \<Rightarrow> thread_page" where
  "render_thread_html thread messages_html =
     \<lparr>tp_topic =
        html_escape (if t_title thread \<noteq> [] then t_title thread
                     else py ''Thread '' @ t_id thread),
      tp_folder =
        html_escape (if t_folder thread \<noteq> [] then t_folder thread else py ''Uncategorised''),
      tp_thread_id = html_escape (t_id thread),
      tp_message_count = t_message_count thread,
      tp_views =
        (if truthy (t_views thread) then html_escape (the (t_views thread)) else py ''N/A''),
      tp_first_display = html_escape (thread_date_display (t_first_date thread)),
      tp_last_display = html_escape (thread_date_display (t_last_date thread)),
      tp_messages = messages_html\<rparr>"

definition render_thread_card :: "thread \<Rightarrow> str \<Rightarrow> thread_card" where
  "render_thread_card thread href_prefix =
     (let count = t_message_count thread;
          last_timestamp = format_card_timestamp (t_last_date thread);
          views = t_views thread;
          stats_parts =
            [str_of_int count @ py '' '' @ pluralize (py ''message'') count]
            @ (case last_timestamp of
                 None \<Rightarrow> []
               | Some ts \<Rightarrow> [py ''Last activity '' @ ts])
            @ (if views \<noteq> None \<and> views \<noteq> Some [] \<and> views \<noteq> Some (py ''0'')
               then [the views @ py '' views'']
               else [])
      in \<lparr>tc_title =
            html_escape (if t_title thread \<noteq> [] then t_title thread
                         else py ''Thread '' @ t_id thread),
          tc_link = href_prefix @ py ''threads/'' @ t_id thread @ py ''.html'',
          tc_meta_author =
            (if truthy (t_first_author thread)
             then Some (html_escape (the (t_first_author thread)))
             else None),
          tc_snippet =
            (if t_snippet thread \<noteq> [] then Some (html_escape (t_snippet thread)) else None),
          tc_stats_text = html_escape (join (py '' | '') stats_parts)\<rparr>)"

text \<open>\<^verbatim>\<open>render_index_html\<close>: one section for every folder that has threads, with the
  cards of its first \<^verbatim>\<open>INDEX_THREADS_PER_FOLDER\<close> threads.\<close>

definition index_section_of :: "folder \<Rightarrow> index_section" where
  "index_section_of folder =
     (let threads = f_threads folder;
          preview_threads = take INDEX_THREADS_PER_FOLDER threads;
          thread_total = int (length threads);
          message_total = sum_list (map t_message_count threads);
          subtitle_parts =
            [str_of_int thread_total @ py '' '' @ pluralize (py ''thread'') thread_total]
            @ (if message_total \<noteq> 0
               then [str_of_int message_total @ py '' '' @ pluralize (py ''message'') message_total]
               else [])
      in \<lparr>is_name = html_escape (f_name folder),
          is_subtitle = html_escape (join (py '' | '') subtitle_parts),
          is_href = py ''folders/'' @ f_slug folder @ py ''.html'',
          is_cards = map (\<lambda>thread. render_thread_card thread []) preview_threads\<rparr>)"

definition render_index_html :: "folder list \<Rightarrow> index_section list" where
  "render_index_html folders =
     map index_section_of (filter (\<lambda>folder. f_threads folder \<noteq> []) folders)"

text \<open>
  The sort keys. \<^verbatim>\<open>sorted(xs, key=k)\<close> and \<^verbatim>\<open>xs.sort(key=k)\<close> are stable, and so is
  \<open>sort_key\<close>; with \<^verbatim>\<open>reverse=True\<close> the order of the keys is reversed while elements
  with equal keys keep their order, which is \<open>sort_reverse\<close>. Tuples compare
  lexicographically, and strings compare by code points.
\<close>

definition first_key :: "thread \<Rightarrow> dt_tuple \<times> str" where
  "first_key t =
     (dt_tuple (case t_first_date t of None \<Rightarrow> datetime_max | Some d \<Rightarrow> d), t_id t)"

definition last_key :: "thread \<Rightarrow> dt_tuple \<times> str" where
  "last_key t =
     (dt_tuple (case t_last_date t of None \<Rightarrow> datetime_min | Some d \<Rightarrow> d), t_id t)"

definition sort_reverse :: "('a \<Rightarrow> 'k::linorder) \<Rightarrow> 'a list \<Rightarrow> 'a list" where
  "sort_reverse k xs = rev (sort_key k (rev xs))"

definition folder_row_of :: "thread \<Rightarrow> folder_row" where
  "folder_row_of thread =
     (let thread_id = html_escape (t_id thread)
      in \<lparr>row_thread_id = thread_id,
          row_link = py ''../threads/'' @ t_id thread @ py ''.html'',
          row_title =
            html_escape (if t_title thread \<noteq> [] then t_title thread
                         else py ''Thread '' @ thread_id),
          row_first_date = format_folder_date (t_first_date thread),
          row_author = html_escape (or_else (t_first_author thread) (py ''Unknown'')),
          row_replies = max (t_message_count thread - 1) 0\<rparr>)"

definition render_folder_html :: "folder \<Rightarrow> folder_page" where
  "render_folder_html folder =
     (let threads = f_threads folder;
          thread_total = int (length threads);
          message_total = sum_list (map t_message_count threads);
          subtitle_parts =
            (if thread_total \<noteq> 0
             then [str_of_int thread_total @ py '' '' @ pluralize (py ''thread'') thread_total]
             else [])
            @ (if message_total \<noteq> 0
               then [str_of_int message_total @ py '' '' @ pluralize (py ''message'') message_total]
               else []);
          subtitle =
            (if join (py '' | '') subtitle_parts = [] then py ''No captured content.''
             else join (py '' | '') subtitle_parts);
          threads_sorted = sort_key first_key threads
      in \<lparr>fp_name = html_escape (if f_name folder \<noteq> [] then f_name folder else py ''Forum''),
          fp_subtitle = html_escape subtitle,
          fp_rows = map folder_row_of threads_sorted\<rparr>)"

section \<open>The export driver: \<^verbatim>\<open>main\<close>\<close>

text \<open>
  The input of a run is the list of the thread records in the order of
  \<^verbatim>\<open>sorted(threads_dir.glob("*.yaml"))\<close>, each with the stem of its file name, the files
  of the store and the files already in the export's \<^verbatim>\<open>files\<close> directory. The state of
  the first loop is the thread pages written so far, the export's files and the list
  \<^verbatim>\<open>threads\<close>. A record without messages is skipped by \<^verbatim>\<open>continue\<close>. An exception
  ends the run: the result is then the exception alone.
\<close>

type_synonym 'f loop_state = "(str \<rightharpoonup> thread_page) \<times> (str \<rightharpoonup> 'f) \<times> thread list"

text \<open>The dictionary that \<^verbatim>\<open>main\<close> builds for a record with messages;
  \<open>first_message\<close> is \<^verbatim>\<open>processed_messages[0]\<close>.\<close>

definition build_thread :: "pylib \<Rightarrow> str \<Rightarrow> thread_data \<Rightarrow> message \<Rightarrow> message list \<Rightarrow> thread" where
  "build_thread L stem data first_message processed_messages =
     (let first_date = parse_date L (m_date first_message);
          last_date = parse_date L (m_date (last processed_messages));
          thread_id = or_else (td_thead_id data) stem;
          title =
            or_else (case td_metadata data of None \<Rightarrow> None | Some md \<Rightarrow> md_topic md)
              (py ''Thread '' @ thread_id);
          folder =
            or_else (case td_metadata data of None \<Rightarrow> None | Some md \<Rightarrow> md_folder md)
              (py ''Uncategorised'');
          views = (case td_metadata data of None \<Rightarrow> None | Some md \<Rightarrow> md_views md);
          folder_slug = slugify L folder;
          snippet = build_snippet L (m_content first_message) 180;
          first_author = m_from first_message;
          message_count = int (length processed_messages)
      in \<lparr>t_id = thread_id, t_title = title, t_folder = folder,
          t_folder_slug = folder_slug, t_views = views,
          t_message_count = message_count, t_first_date = first_date,
          t_last_date = last_date, t_first_author = first_author,
          t_snippet = snippet\<rparr>)"

definition process_thread ::
  "pylib \<Rightarrow> (str \<rightharpoonup> 'f) \<Rightarrow> str \<times> thread_data \<Rightarrow> 'f loop_state \<Rightarrow> py_error + 'f loop_state" where
  "process_thread L store_files rec state =
     (case (rec, state) of
        ((stem, data), (thread_pages, export_files, threads)) \<Rightarrow>
          (let processed_messages = (case td_messages data of None \<Rightarrow> [] | Some ms \<Rightarrow> ms)
           in case processed_messages of
                [] \<Rightarrow> Inr state
              | first_message # _ \<Rightarrow>
                  (let thread = build_thread L stem data first_message processed_messages
                   in case render_messages L processed_messages store_files export_files of
                        Inl e \<Rightarrow> Inl e
                      | Inr (rendered_messages, export_files') \<Rightarrow>
                          Inr (thread_pages(t_id thread \<mapsto>
                                 render_thread_html thread rendered_messages),
                               export_files',
                               threads @ [thread]))))"

fun main_loop ::
  "pylib \<Rightarrow> (str \<rightharpoonup> 'f) \<Rightarrow> (str \<times> thread_data) list \<Rightarrow> 'f loop_state \<Rightarrow> py_error + 'f loop_state" where
  "main_loop L store_files [] state = Inr state"
| "main_loop L store_files (rec # recs) state =
     (case process_thread L store_files rec state of
        Inl e \<Rightarrow> Inl e
      | Inr state' \<Rightarrow> main_loop L store_files recs state')"

text \<open>
  The folder view: \<^verbatim>\<open>folders\<close> is a dictionary keyed by the folder's display name; it
  is an association list in insertion order here. \<^verbatim>\<open>setdefault\<close> adds a bucket for a
  name that has none, and the thread is appended to the bucket of its name.
\<close>

definition add_to_folders :: "pylib \<Rightarrow> thread \<Rightarrow> (str \<times> folder) list \<Rightarrow> (str \<times> folder) list" where
  "add_to_folders L thread folders =
     (let folder_name = (if t_folder thread \<noteq> [] then t_folder thread else py ''Uncategorised'');
          folder_slug =
            (if t_folder_slug thread \<noteq> [] then t_folder_slug thread else slugify L folder_name);
          folders' =
            (if folder_name \<in> fst ` set folders then folders
             else folders @ [(folder_name,
                    \<lparr>f_name = folder_name, f_slug = folder_slug, f_threads = []\<rparr>)])
      in map (\<lambda>(n, bucket).
                if n = folder_name then (n, bucket\<lparr>f_threads := f_threads bucket @ [thread]\<rparr>)
                else (n, bucket)) folders')"

fun assemble_folders :: "pylib \<Rightarrow> thread list \<Rightarrow> (str \<times> folder) list \<Rightarrow> (str \<times> folder) list" where
  "assemble_folders L [] folders = folders"
| "assemble_folders L (thread # threads) folders =
     assemble_folders L threads (add_to_folders L thread folders)"

text \<open>The last loop writes one file per folder of the index, under the folder's slug;
  \<^verbatim>\<open>write_text\<close> replaces a file that is there.\<close>

fun write_folder_pages :: "folder list \<Rightarrow> (str \<rightharpoonup> folder_page) \<Rightarrow> (str \<rightharpoonup> folder_page)" where
  "write_folder_pages [] pages = pages"
| "write_folder_pages (folder # folders) pages =
     write_folder_pages folders (pages(f_slug folder \<mapsto> render_folder_html folder))"

record 'f site =
  site_threads :: "str \<rightharpoonup> thread_page"
  site_folders :: "str \<rightharpoonup> folder_page"
  site_index :: "index_section list"
  site_files :: "str \<rightharpoonup> 'f"

definition folder_sections_of :: "pylib \<Rightarrow> thread list \<Rightarrow> folder list" where
  "folder_sections_of L threads =
     (let folders = assemble_folders L threads [];
          folders =
            map (\<lambda>(n, folder). folder\<lparr>f_threads := sort_reverse last_key (f_threads folder)\<rparr>)
              folders
      in sort_key (\<lambda>item. py_lower L (f_name item)) folders)"

definition main ::
  "pylib \<Rightarrow> (str \<rightharpoonup> 'f) \<Rightarrow> (str \<rightharpoonup> 'f) \<Rightarrow> (str \<times> thread_data) list \<Rightarrow> py_error + 'f site" where
  "main L store_files export_files records =
     (case main_loop L store_files records (Map.empty, export_files, []) of
        Inl e \<Rightarrow> Inl e
      | Inr (thread_pages, export_files', threads) \<Rightarrow>
          (let folder_sections = folder_sections_of L threads
           in Inr \<lparr>site_threads = thread_pages,
                   site_folders = write_folder_pages folder_sections Map.empty,
                   site_index = render_index_html folder_sections,
                   site_files = export_files'\<rparr>))"

section \<open>The timestamp forms in the words of the specification\<close>

text \<open>
  The short numeric form \<open>M/D/YY\<close>: month and day as they are, the year in two digits.
  The verbose form \<open>Mon DD, YYYY h:mmAM/PM\<close>: the abbreviated month name, the day in
  two digits, the year, and the time of the twelve-hour clock with no space before
  \<open>AM\<close> or \<open>PM\<close>.
\<close>

definition spec_short_date :: "datetime \<Rightarrow> str" where
  "spec_short_date d =
     str_of_nat (dt_month d) @ py ''/'' @ str_of_nat (dt_day d) @ py ''/''
       @ zpad 2 (dt_year d mod 100)"

definition spec_verbose_timestamp :: "datetime \<Rightarrow> str" where
  "spec_verbose_timestamp d =
     month_abbr (dt_month d) @ py '' '' @ zpad 2 (dt_day d) @ py '', ''
       @ str_of_nat (dt_year d) @ py '' ''
       @ str_of_nat (if dt_hour d mod 12 = 0 then 12 else dt_hour d mod 12) @ py '':''
       @ zpad 2 (dt_minute d) @ (if dt_hour d < 12 then py ''AM'' else py ''PM'')"

section \<open>Values for the worked examples\<close>

definition sample_date :: datetime where
  "sample_date =
     \<lparr>dt_year = 2024, dt_month = 3, dt_day = 5, dt_hour = 14, dt_minute = 7, dt_second = 9,
      dt_microsecond = 0\<rparr>"

definition sample_thread :: thread where
  "sample_thread =
     \<lparr>t_id = py ''42'', t_title = py ''Hello'', t_folder = py ''General'',
      t_folder_slug = py ''general'', t_views = None, t_message_count = 2,
      t_first_date = Some sample_date, t_last_date = None,
      t_first_author = Some (py ''Alice''), t_snippet = py ''Hi''\<rparr>"

section \<open>Collapsed and trimmed text in the words of the specification\<close>

text \<open>
  Whitespace is collapsed to single spaces when every whitespace character is a space and
  no two of them are adjacent; a text is trimmed when it neither starts nor ends with
  whitespace.
\<close>

fun single_spaced :: "str \<Rightarrow> bool" where
  "single_spaced [] \<longleftrightarrow> True"
| "single_spaced [a] \<longleftrightarrow> (is_space a \<longrightarrow> a = 32)"
| "single_spaced (a # b # rest) \<longleftrightarrow>
     (is_space a \<longrightarrow> a = 32) \<and> \<not> (is_space a \<and> is_space b) \<and> single_spaced (b # rest)"

definition trimmed :: "str \<Rightarrow> bool" where
  "trimmed s \<longleftrightarrow> s = [] \<or> (\<not> is_space (hd s) \<and> \<not> is_space (last s))"

definition sample_body :: str where
  \<open>sample_body =
     py ''<p>The   <b>quick</b> brown fox jumps over the lazy dog and keeps running throug''
       @ py ''h the forest until the evening light fades behind the far hills, while the river''
       @ py '' carries fallen leaves away; then, night comes slowly over everything and all is''
       @ py '' still again.</p>''\<close>

text \<open>
  The thread of the end-to-end scenario of the specification: one record in the folder
  \<open>General\<close> with two messages, the first from \<open>Alice (guest) unread\<close> and dated, the
  second from \<open>Bob\<close> in reply to the first.
\<close>

definition sample_message_1 :: message where
  "sample_message_1 =
     \<lparr>m_id = Some (py ''42.1''), m_from = Some (py ''Alice (guest) unread''), m_to = None,
      m_from_status = None, m_to_status = None,
      m_date = Some (py ''Mon Jan 01 10:30:00 2024''), m_content = Some (py ''<p>Hi all</p>''),
      m_images = [], m_attachments = [], m_in_reply_to = None\<rparr>"

definition sample_message_2 :: message where
  "sample_message_2 =
     \<lparr>m_id = Some (py ''42.2''), m_from = Some (py ''Bob''), m_to = Some (py ''Alice''),
      m_from_status = None, m_to_status = None, m_date = None, m_content = None,
      m_images = [], m_attachments = [], m_in_reply_to = Some (py ''42.1'')\<rparr>"

definition sample_record :: "str \<times> thread_data" where
  "sample_record =
     (py ''42'',
      \<lparr>td_thead_id = None,
       td_metadata = Some \<lparr>md_topic = Some (py ''Hello''), md_folder = Some (py ''General''),
                            md_views = None\<rparr>,
       td_messages = Some [sample_message_1, sample_message_2]\<rparr>)"

text \<open>The ranges of the fields of a \<^verbatim>\<open>datetime\<close>: every value of the Python type is
  within them.\<close>

definition valid_datetime :: "datetime \<Rightarrow> bool" where
  "valid_datetime d \<longleftrightarrow>
     1 \<le> dt_year d \<and> dt_year d \<le> 9999 \<and> 1 \<le> dt_month d \<and> dt_month d \<le> 12 \<and>
     1 \<le> dt_day d \<and> dt_day d \<le> 31 \<and> dt_hour d \<le> 23 \<and> dt_minute d \<le> 59 \<and>
     dt_second d \<le> 59 \<and> dt_microsecond d \<le> 999999"

text \<open>Four threads of one folder: two without dates and two with dates.\<close>

definition sample_threads :: "thread list" where
  "sample_threads =
     [sample_thread\<lparr>t_id := py ''1'', t_first_date := None, t_last_date := None\<rparr>,
      sample_thread\<lparr>t_id := py ''2'', t_first_date := Some sample_date,
        t_last_date := Some sample_date\<rparr>,
      sample_thread\<lparr>t_id := py ''3'',
        t_first_date := Some (sample_date\<lparr>dt_month := 1\<rparr>),
        t_last_date := Some (sample_date\<lparr>dt_month := 6\<rparr>)\<rparr>,
      sample_thread\<lparr>t_id := py ''4'', t_first_date := None, t_last_date := None\<rparr>]"

(* THEOREMS *)

section \<open>Content addressor: the hashed asset name\<close>

lemma length_sha1_hexdigest: "length (sha1_hexdigest m) = 40"
  by (simp add: sha1_hexdigest_def hex32_def split: prod.splits)

lemma backtrack_Some:
  "backtrack m rest = Some k \<Longrightarrow>
     1 \<le> k \<and> k \<le> m \<and> at_dollar (drop k rest) \<and> (\<forall>j. k < j \<and> j \<le> m \<longrightarrow> \<not> at_dollar (drop j rest))"
proof (induction m)
  case 0
  then show ?case by simp
next
  case (Suc m)
  show ?case
  proof (cases "at_dollar (drop (Suc m) rest)")
    case True
    with Suc.prems show ?thesis by auto
  next
    case False
    with Suc.prems have "backtrack m rest = Some k" by simp
    from Suc.IH [OF this] False show ?thesis
      by (auto simp: le_Suc_eq)
  qed
qed

lemma backtrack_None:
  "(\<And>k. 1 \<le> k \<Longrightarrow> k \<le> m \<Longrightarrow> \<not> at_dollar (drop k rest)) \<Longrightarrow> backtrack m rest = None"
  by (induction m) auto

lemma backtrack_top:
  "at_dollar (drop (Suc m) rest) \<Longrightarrow> backtrack (Suc m) rest = Some (Suc m)"
  by simp

lemma ext_char_newline: "ext_char 10"
  by (simp add: ext_char_def)

lemma ext_char_dot: "\<not> ext_char 46"
  by (simp add: ext_char_def)

lemma takeWhile_all: "length (takeWhile P xs) = length xs \<Longrightarrow> list_all P xs"
  by (metis list_all_iff takeWhile_eq_all_conv length_takeWhile_le takeWhile_eq_take take_all le_refl)

lemma take_takeWhile_all: "k \<le> length (takeWhile P xs) \<Longrightarrow> list_all P (take k xs)"
  by (metis list_all_iff set_takeWhileD takeWhile_eq_take take_take min.absorb1 in_set_takeD length_takeWhile_le take_all)


lemma is_extension_Cons:
  "is_extension (c # body) \<longleftrightarrow> c = 46 \<and> 1 \<le> length body \<and> length body \<le> 5 \<and> list_all ext_char body"
  by (simp add: is_extension_def)

lemma is_extension_length: "is_extension e \<Longrightarrow> 2 \<le> length e \<and> length e \<le> 6"
  by (cases e) (auto simp: is_extension_def)

lemma match_ext_here_Some:
  assumes "match_ext_here s = Some n"
  shows "(is_extension s \<and> n = length s) \<or>
         (\<exists>e. s = e @ [10] \<and> is_extension e \<and> length e = 6 \<and> n = 6)"
proof -
  from assms obtain rest where s: "s = 46 # rest"
    by (cases s) (auto simp: match_ext_here_def split: if_splits)
  define m where "m = min 5 (length (takeWhile ext_char rest))"
  from assms s obtain k where bt: "backtrack m rest = Some k" and n: "n = Suc k"
    by (auto simp: match_ext_here_def m_def)
  from backtrack_Some [OF bt]
  have k1: "1 \<le> k" and km: "k \<le> m" and dollar: "at_dollar (drop k rest)"
    and top: "\<And>j. k < j \<Longrightarrow> j \<le> m \<Longrightarrow> \<not> at_dollar (drop j rest)"
    by auto
  have k5: "k \<le> 5" and ktw: "k \<le> length (takeWhile ext_char rest)"
    using km by (auto simp: m_def)
  have pre: "list_all ext_char (take k rest)"
    using ktw by (rule take_takeWhile_all)
  have klen: "k \<le> length rest"
    using ktw length_takeWhile_le [of ext_char rest] by linarith
  from dollar consider "drop k rest = []" | "drop k rest = [10]"
    by (auto simp: at_dollar_def)
  then show ?thesis
  proof cases
    case 1
    with klen have "k = length rest" by simp
    with pre k1 k5 show ?thesis
      by (simp add: s n is_extension_Cons)
  next
    case 2
    then have "length (drop k rest) = 1" by simp
    then have len: "length rest = Suc k" by simp
    define pr where "pr = take k rest"
    have "take k rest @ drop k rest = rest" by (rule append_take_drop_id)
    then have rest: "rest = pr @ [10]"
      using 2 by (simp add: pr_def)
    have prlen: "length pr = k"
      using klen by (simp add: pr_def)
    have pre': "list_all ext_char pr"
      using pre by (simp add: pr_def)
    show ?thesis
    proof (cases "k = 5")
      case True
      have "s = (46 # pr) @ [10]"
        using rest s by simp
      moreover have "is_extension (46 # pr)"
        using pre' k1 k5 prlen by (simp add: is_extension_Cons)
      moreover have "length (46 # pr) = 6"
        using True prlen by simp
      moreover have "n = 6"
        using n True by simp
      ultimately have "\<exists>e. s = e @ [10] \<and> is_extension e \<and> length e = 6 \<and> n = 6"
        by (intro exI [of _ "46 # pr"] conjI)
      then show ?thesis ..
    next
      case False
      have "list_all ext_char rest"
        using pre' ext_char_newline by (simp add: rest)
      then have "takeWhile ext_char rest = rest"
        by (simp add: list_all_iff)
      then have "m = min 5 (Suc k)"
        using len by (simp only: m_def)
      then have "m = Suc k"
        using False k5 by simp
      with top [of "Suc k"] len show ?thesis
        by (simp add: at_dollar_def)
    qed
  qed
qed

lemma match_ext_here_extension:
  assumes "is_extension s"
  shows "match_ext_here s = Some (length s)"
proof -
  from assms obtain body where s: "s = 46 # body" and b1: "1 \<le> length body"
    and b5: "length body \<le> 5" and all: "list_all ext_char body"
    by (cases s) (auto simp: is_extension_def)
  from all have tw: "takeWhile ext_char body = body"
    by (simp add: list_all_iff)
  from b1 obtain j where j: "length body = Suc j"
    by (cases "length body") auto
  have "backtrack (Suc j) body = Some (Suc j)"
    using j by (intro backtrack_top) (simp add: at_dollar_def)
  moreover have "min 5 (length body) = Suc j"
    using b5 j by simp
  ultimately show ?thesis
    using j by (simp add: match_ext_here_def s tw del: backtrack.simps)
qed

lemma match_ext_here_before_dot:
  assumes "1 \<le> length body"
  shows "match_ext_here (c # q @ 46 # body) = None"
proof (cases "c = 46")
  case False
  then show ?thesis by (simp add: match_ext_here_def)
next
  case True
  define t where "t = 46 # body"
  have tw: "length (takeWhile ext_char (q @ t)) \<le> length q"
    by (simp add: takeWhile_append t_def ext_char_dot length_takeWhile_le)
  have "backtrack (min 5 (length (takeWhile ext_char (q @ t)))) (q @ t) = None"
  proof (rule backtrack_None)
    fix k assume "1 \<le> k" and "k \<le> min 5 (length (takeWhile ext_char (q @ t)))"
    with tw have kq: "k \<le> length q" by simp
    define ds where "ds = drop k (q @ t)"
    have "length ds = length q - k + length t"
      using kq by (simp add: ds_def)
    then have "length ds \<ge> 2"
      using assms by (simp add: t_def)
    then have "\<not> at_dollar ds"
      by (auto simp: at_dollar_def)
    then show "\<not> at_dollar (drop k (q @ t))"
      by (simp add: ds_def)
  qed
  then show ?thesis
    by (simp add: match_ext_here_def True t_def)
qed

lemma match_ext_here_before_extension:
  assumes "is_extension t"
  shows "match_ext_here (c # q @ t) = None"
proof -
  from assms obtain body where "t = 46 # body" and "1 \<le> length body"
    by (cases t) (auto simp: is_extension_def)
  then show ?thesis
    by (simp add: match_ext_here_before_dot)
qed

lemma match_ext_here_newline:
  assumes "is_extension e" and "length e = 6"
  shows "match_ext_here (e @ [10]) = Some 6"
proof -
  from assms obtain body where e: "e = 46 # body" and len: "length body = 5"
    and all: "list_all ext_char body"
    by (cases e) (auto simp: is_extension_def)
  have "list_all ext_char (body @ [10])"
    using all ext_char_newline by simp
  then have "takeWhile ext_char (body @ [10]) = body @ [10]"
    by (simp add: list_all_iff)
  then have m: "min 5 (length (takeWhile ext_char (body @ [10]))) = Suc 4"
    using len by simp
  have "backtrack (Suc 4) (body @ [10]) = Some (Suc 4)"
    using len by (intro backtrack_top) (simp add: at_dollar_def)
  then show ?thesis
    unfolding match_ext_here_def e using m by simp
qed

lemma search_None:
  "(\<And>i. match_ext_here (drop i u) = None) \<Longrightarrow> HASH_EXT_RE_search u = None"
proof (induction u)
  case Nil
  then show ?case by simp
next
  case (Cons c u)
  have "match_ext_here (c # u) = None"
    using Cons.prems [of 0] by simp
  moreover have "HASH_EXT_RE_search u = None"
  proof (rule Cons.IH)
    fix i show "match_ext_here (drop i u) = None"
      using Cons.prems [of "Suc i"] by simp
  qed
  ultimately show ?case by simp
qed

lemma search_Some:
  "match_ext_here t = Some n \<Longrightarrow>
   (\<And>i. i < length p \<Longrightarrow> match_ext_here (drop i (p @ t)) = None) \<Longrightarrow>
   HASH_EXT_RE_search (p @ t) = Some (length p, length p + n)"
proof (induction p)
  case Nil
  then show ?case by (cases t) (auto simp: match_ext_here_def)
next
  case (Cons c p)
  have "match_ext_here (c # p @ t) = None"
    using Cons.prems(2) [of 0] by simp
  moreover have "HASH_EXT_RE_search (p @ t) = Some (length p, length p + n)"
  proof (rule Cons.IH [OF Cons.prems(1)])
    fix i assume "i < length p"
    then show "match_ext_here (drop i (p @ t)) = None"
      using Cons.prems(2) [of "Suc i"] by simp
  qed
  ultimately show ?case by simp
qed

lemma find_SomeD: "find P xs = Some x \<Longrightarrow> P x \<and> x \<in> set xs"
  by (induction xs) (auto split: if_splits)

lemma spec_extension_cases:
  "(spec_extension u = [] \<and> (\<forall>i. \<not> is_extension (drop i u))) \<or>
   (\<exists>p. u = p @ spec_extension u \<and> is_extension (spec_extension u))"
proof (cases "find is_extension (map (\<lambda>k. drop (length u - k) u) [2, 3, 4, 5, 6])")
  case None
  have no: "\<not> is_extension (drop (length u - k) u)" if "k \<in> {2, 3, 4, 5, 6}" for k
    using None that unfolding find_None_iff by auto
  have "\<not> is_extension (drop i u)" for i
  proof
    assume ext: "is_extension (drop i u)"
    define k where "k = length (drop i u)"
    from is_extension_length [OF ext] have k: "2 \<le> k" "k \<le> 6"
      by (simp_all add: k_def)
    then have "k \<in> {2, 3, 4, 5, 6}" by auto
    moreover have "length u - k = i"
      using k by (simp add: k_def)
    ultimately show False
      using no [of k] ext by simp
  qed
  with None show ?thesis
    by (simp add: spec_extension_def)
next
  case (Some e)
  from find_SomeD [OF Some]
  have "is_extension e" and "e \<in> set (map (\<lambda>k. drop (length u - k) u) [2, 3, 4, 5, 6])"
    by blast+
  then obtain k where e: "e = drop (length u - k) u"
    by auto
  have "u = take (length u - k) u @ e"
    by (simp add: e)
  with Some \<open>is_extension e\<close> show ?thesis
    by (auto simp: spec_extension_def)
qed

lemma search_extension:
  assumes "is_extension t"
  shows "HASH_EXT_RE_search (p @ t) = Some (length p, length p + length t)"
proof (rule search_Some)
  show "match_ext_here t = Some (length t)"
    using assms by (rule match_ext_here_extension)
next
  fix i assume i: "i < length p"
  then obtain c q where "drop i p = c # q"
    by (cases "drop i p") auto
  then have "drop i (p @ t) = c # q @ t"
    using i by simp
  then show "match_ext_here (drop i (p @ t)) = None"
    using assms by (simp add: match_ext_here_before_extension)
qed

lemma search_no_extension:
  assumes no: "\<And>i. \<not> is_extension (drop i u)" and nl: "\<not> ext_before_final_newline u"
  shows "HASH_EXT_RE_search u = None"
proof (rule search_None)
  fix i
  show "match_ext_here (drop i u) = None"
  proof (cases "match_ext_here (drop i u)")
    case None
    then show ?thesis .
  next
    case (Some n)
    from match_ext_here_Some [OF Some] no [of i]
    obtain e where e: "drop i u = e @ [10]" "is_extension e" "length e = 6"
      by auto
    then have len: "length (drop i u) = 7" by simp
    then have i: "i = length u - 7" and u7: "7 \<le> length u" by auto
    have "last u = 10"
      using e(1) len by (metis last_drop last_snoc length_drop zero_less_diff zero_less_numeral)
    moreover have "take 6 (drop (length u - 7) u) = e"
      using e i by simp
    ultimately have "ext_before_final_newline u"
      using u7 e(2) by (simp add: ext_before_final_newline_def)
    with nl show ?thesis by simp
  qed
qed

lemma hash_for_url_final_newline:
  assumes "is_extension e" and "length e = 6"
  shows "hash_for_url (p @ e @ [10]) =
     (case utf8_encode p of Inl err \<Rightarrow> Inl err | Inr bs \<Rightarrow> Inr (sha1_hexdigest bs @ e))"
proof -
  from assms obtain body where e: "e = 46 # body" and body: "1 \<le> length body"
    by (cases e) (auto simp: is_extension_def)
  have "HASH_EXT_RE_search (p @ (e @ [10])) = Some (length p, length p + 6)"
  proof (rule search_Some)
    show "match_ext_here (e @ [10]) = Some 6"
      using assms by (rule match_ext_here_newline)
  next
    fix i assume i: "i < length p"
    then obtain c q where "drop i p = c # q"
      by (cases "drop i p") auto
    then have "drop i (p @ e @ [10]) = c # q @ 46 # (body @ [10])"
      using i by (simp add: e)
    then show "match_ext_here (drop i (p @ e @ [10])) = None"
      using body by (simp only: match_ext_here_before_dot length_append)
  qed
  then show ?thesis
    using assms(2) by (simp add: hash_for_url_def)
qed

text \<open>
  Claim C1, as amended. For every URL \<open>u\<close> that does not end in an extension of five
  characters followed by one line feed, \<^verbatim>\<open>hash_for_url\<close> computes the hashed name of the
  specification: it strips the trailing extension (one dot, then one to five characters
  other than dot, slash, \<open>?\<close>, \<open>&\<close>, \<open>=\<close>, \<open>-\<close>), takes the SHA-1 hex digest of the
  UTF-8 bytes of the rest and appends the extension as it stands. The result is a
  function of \<open>u\<close> alone. When the rest holds a lone surrogate, both sides are the
  \<^verbatim>\<open>UnicodeEncodeError\<close> of the encoding. (In the excluded shape the extension is taken
  before the line feed and the line feed is dropped: \<open>hash_for_url_final_newline\<close>.)
\<close>

theorem hash_for_url_spec:
  assumes "\<not> ext_before_final_newline u"
  shows "hash_for_url u = spec_hashed_name u"
proof -
  from spec_extension_cases [of u] show ?thesis
  proof (elim disjE conjE exE)
    assume empty: "spec_extension u = []" and no: "\<forall>i. \<not> is_extension (drop i u)"
    have "HASH_EXT_RE_search u = None"
      using no assms by (intro search_no_extension) auto
    then show ?thesis
      by (simp add: hash_for_url_def spec_hashed_name_def empty)
  next
    fix p assume u: "u = p @ spec_extension u" and ext: "is_extension (spec_extension u)"
    define t where "t = spec_extension u"
    have upt: "u = p @ t" using u by (simp add: t_def)
    have "HASH_EXT_RE_search (p @ t) = Some (length p, length p + length t)"
      using ext unfolding t_def [symmetric] by (rule search_extension)
    then have "hash_for_url (p @ t) =
        (case utf8_encode p of Inl e \<Rightarrow> Inl e | Inr bs \<Rightarrow> Inr (sha1_hexdigest bs @ t))"
      by (simp add: hash_for_url_def)
    moreover have "spec_hashed_name u =
        (case utf8_encode p of Inl e \<Rightarrow> Inl e | Inr bs \<Rightarrow> Inr (sha1_hexdigest bs @ t))"
      unfolding spec_hashed_name_def t_def [symmetric] Let_def
      by (subst (1 2) upt) simp
    ultimately show ?thesis
      using upt by simp
  qed
qed


theorem hash_for_url_spec_witness:
  "\<not> ext_before_final_newline (py ''http://x.org/a/pic.jpeg'') \<and>
   hash_for_url (py ''http://x.org/a/pic.jpeg'') =
     Inr (sha1_hexdigest (map of_char ''http://x.org/a/pic'') @ py ''.jpeg'')"
  using hash_for_url_spec [of "py ''http://x.org/a/pic.jpeg''"]
  by (simp add: ext_before_final_newline_def is_extension_def ext_char_def
      spec_hashed_name_def spec_extension_def utf8_char_def)

text \<open>
  Claim C1 as stated fails on \<^verbatim>\<open>"a.abcde\n"\<close>: the specification's rule finds no
  trailing extension (six characters follow the dot) and hashes the whole string, a name
  of 40 characters; the code matches \<open>.abcde\<close> before the final line feed, hashes
  \<open>a\<close> and returns 46 characters.
\<close>

theorem hash_for_url_final_newline_counterexample:
  "hash_for_url (py ''a.abcde'' @ [10]) \<noteq> spec_hashed_name (py ''a.abcde'' @ [10])"
proof -
  have code: "hash_for_url (py ''a.abcde'' @ [10]) = Inr (sha1_hexdigest [0x61] @ py ''.abcde'')"
    by (simp add: hash_for_url_def match_ext_here_def ext_char_def at_dollar_def utf8_char_def)
  have spec: "spec_hashed_name (py ''a.abcde'' @ [10]) =
      Inr (sha1_hexdigest [0x61, 0x2E, 0x61, 0x62, 0x63, 0x64, 0x65, 0x0A])"
    by (simp add: spec_hashed_name_def spec_extension_def is_extension_def ext_char_def
        utf8_char_def)
  have "length (sha1_hexdigest [0x61] @ py ''.abcde'') = 46"
    by (simp add: length_sha1_hexdigest)
  moreover have "length (sha1_hexdigest [0x61, 0x2E, 0x61, 0x62, 0x63, 0x64, 0x65, 0x0A]) = 40"
    by (rule length_sha1_hexdigest)
  ultimately show ?thesis
    unfolding code spec by (metis sum.inject(2) numeral_eq_iff semiring_norm(89) num.inject)
qed

section \<open>Content addressor: resolving an asset\<close>

lemma hash_pic:
  "hash_for_url (py ''http://x.org/a/pic.jpeg'') =
     Inr (sha1_hexdigest (map of_char ''http://x.org/a/pic'') @ py ''.jpeg'')"
  by (simp add: hash_for_url_def match_ext_here_def ext_char_def at_dollar_def utf8_char_def)

text \<open>
  Claim C2, as amended. For every non-empty URL whose name can be hashed (its hashed part
  holds no lone surrogate), with \<open>h\<close> the hashed name: when the store has no file
  \<open>h\<close> the operation returns \<open>None\<close> and leaves the export directory as it is;
  when the store has the file, it returns the path \<open>files/h\<close>, the export directory
  gets a copy under the name \<open>h\<close> only if it had no such file, and a second request
  returns the same path and changes nothing. An absent or empty URL gives \<open>None\<close>.
\<close>

theorem ensure_local_asset_resolves:
  assumes "u \<noteq> []" and "hash_for_url u = Inr h"
  shows "(store h = None \<longrightarrow>
            ensure_local_asset (Some u) store export = Inr (None, export)) \<and>
         (\<forall>c. store h = Some c \<longrightarrow>
            (\<exists>export'.
               ensure_local_asset (Some u) store export = Inr (Some (py ''files/'' @ h), export') \<and>
               export' = (if h \<in> dom export then export else export(h \<mapsto> c)) \<and>
               ensure_local_asset (Some u) store export' = Inr (Some (py ''files/'' @ h), export'))) \<and>
         ensure_local_asset None store export = Inr (None, export) \<and>
         ensure_local_asset (Some []) store export = Inr (None, export)"
  using assms by (auto simp: ensure_local_asset_def)

theorem ensure_local_asset_resolves_witness:
  "ensure_local_asset (Some (py ''http://x.org/a/pic.jpeg'')) Map.empty (Map.empty :: str \<rightharpoonup> nat)
     = Inr (None, Map.empty) \<and>
   ensure_local_asset (Some (py ''http://x.org/a/pic.jpeg''))
      [sha1_hexdigest (map of_char ''http://x.org/a/pic'') @ py ''.jpeg'' \<mapsto> (7::nat)] Map.empty
     = Inr (Some (py ''files/'' @ sha1_hexdigest (map of_char ''http://x.org/a/pic'') @ py ''.jpeg''),
            [sha1_hexdigest (map of_char ''http://x.org/a/pic'') @ py ''.jpeg'' \<mapsto> 7])"
  using ensure_local_asset_resolves [OF _ hash_pic, of Map.empty "Map.empty :: str \<rightharpoonup> nat"]
    ensure_local_asset_resolves [OF _ hash_pic,
      of "[sha1_hexdigest (map of_char ''http://x.org/a/pic'') @ py ''.jpeg'' \<mapsto> (7::nat)]" Map.empty]
  by simp

text \<open>
  Claim C2 as stated fails on the URL \<^verbatim>\<open>"\ud800"\<close>: no file is found for it, yet the
  operation does not return \<open>None\<close>; the UTF-8 encoding inside \<^verbatim>\<open>hash_for_url\<close>
  raises \<^verbatim>\<open>UnicodeEncodeError\<close>, which nothing catches.
\<close>

theorem ensure_local_asset_surrogate_counterexample:
  "ensure_local_asset (Some [0xD800]) Map.empty (Map.empty :: str \<rightharpoonup> nat) = Inl UnicodeEncodeError"
  by (simp add: ensure_local_asset_def hash_for_url_def utf8_char_def match_ext_here_def)

section \<open>Message anchors\<close>

lemma render_messages_from_nth:
  "render_messages_from L store_files i n msgs ex = Inr (rs, ex') \<Longrightarrow>
     length rs = length msgs \<and>
     (\<forall>k<length msgs. rm_anchor (rs ! k) = message_anchor (msgs ! k) \<and>
        rm_index (rs ! k) = i + k \<and> rm_total (rs ! k) = n)"
proof (induction msgs arbitrary: i rs ex)
  case Nil
  then show ?case by simp
next
  case (Cons msg msgs)
  from Cons.prems obtain r ex1 rs' where
    r: "render_message L store_files i n msg ex = Inr (r, ex1)" and
    rest: "render_messages_from L store_files (Suc i) n msgs ex1 = Inr (rs', ex')" and
    rs: "rs = r # rs'"
    by (auto split: sum.splits)
  from r have r_anchor: "rm_anchor r = message_anchor msg \<and> rm_index r = i \<and> rm_total r = n"
    by (auto simp: render_message_def Let_def split: sum.splits)
  from Cons.IH [OF rest] have len: "length rs' = length msgs"
    and nth: "\<And>k. k < length msgs \<Longrightarrow> rm_anchor (rs' ! k) = message_anchor (msgs ! k) \<and>
        rm_index (rs' ! k) = Suc i + k \<and> rm_total (rs' ! k) = n"
    by auto
  show ?case
  proof (intro conjI allI impI)
    show "length rs = length (msg # msgs)" using len rs by simp
  next
    fix k assume "k < length (msg # msgs)"
    then show "rm_anchor (rs ! k) = message_anchor ((msg # msgs) ! k)"
      using r_anchor nth rs by (cases k) auto
  next
    fix k assume "k < length (msg # msgs)"
    then show "rm_index (rs ! k) = i + k"
      using r_anchor nth rs by (cases k) auto
  next
    fix k assume "k < length (msg # msgs)"
    then show "rm_total (rs ! k) = n"
      using r_anchor nth rs by (cases k) auto
  qed
qed

lemma message_anchor_id:
  "m_id msg = Some mid \<Longrightarrow> mid \<noteq> [] \<Longrightarrow>
     message_anchor msg = py ''msg-'' @ map (\<lambda>c. if c = 46 then 45 else c) mid"
  by (simp add: message_anchor_def or_else_def replace_char_def)

lemma message_anchor_unknown:
  "m_id msg = None \<or> m_id msg = Some [] \<Longrightarrow> message_anchor msg = py ''msg-unknown''"
  by (auto simp: message_anchor_def or_else_def replace_char_def)

text \<open>
  Claim C10. In the rendering of the messages of a thread, the anchor of every message is
  \<open>msg-\<close> followed by its identifier with every \<open>.\<close> replaced by \<open>-\<close>; when the
  identifier is absent (or empty) the anchor is \<open>msg-unknown\<close>. So two messages of the
  thread that have no identifier get the same anchor: anchors are not unique.
\<close>

theorem message_anchors:
  assumes "render_messages L msgs store_files export_files = Inr (rs, export_files')"
  shows "length rs = length msgs \<and>
    (\<forall>k<length msgs.
       (\<forall>mid. m_id (msgs ! k) = Some mid \<and> mid \<noteq> [] \<longrightarrow>
          rm_anchor (rs ! k) = py ''msg-'' @ map (\<lambda>c. if c = 46 then 45 else c) mid) \<and>
       (m_id (msgs ! k) = None \<or> m_id (msgs ! k) = Some [] \<longrightarrow>
          rm_anchor (rs ! k) = py ''msg-unknown'')) \<and>
    (\<forall>j<length msgs. \<forall>k<length msgs.
       m_id (msgs ! j) = None \<and> m_id (msgs ! k) = None \<longrightarrow> rm_anchor (rs ! j) = rm_anchor (rs ! k))"
proof -
  from assms have "render_messages_from L store_files 1 (length msgs) msgs export_files = Inr (rs, export_files')"
    by (simp add: render_messages_def)
  from render_messages_from_nth [OF this]
  have len: "length rs = length msgs"
    and nth: "\<And>k. k < length msgs \<Longrightarrow> rm_anchor (rs ! k) = message_anchor (msgs ! k)"
    by auto
  show ?thesis
    using len nth by (auto simp: message_anchor_id message_anchor_unknown)
qed

theorem message_anchors_witness:
  "\<exists>rs export_files'.
     render_messages sample_lib
       [\<lparr>m_id = None, m_from = Some (py ''Alice''), m_to = None, m_from_status = None,
          m_to_status = None, m_date = None, m_content = None, m_images = [],
          m_attachments = [], m_in_reply_to = None\<rparr>,
        \<lparr>m_id = Some (py ''12.3''), m_from = Some (py ''Bob''), m_to = None, m_from_status = None,
          m_to_status = None, m_date = None, m_content = None, m_images = [],
          m_attachments = [], m_in_reply_to = None\<rparr>,
        \<lparr>m_id = None, m_from = Some (py ''Carol''), m_to = None, m_from_status = None,
          m_to_status = None, m_date = None, m_content = None, m_images = [],
          m_attachments = [], m_in_reply_to = None\<rparr>]
       Map.empty (Map.empty :: str \<rightharpoonup> nat) = Inr (rs, export_files') \<and>
     length rs = 3 \<and>
     rm_anchor (rs ! 0) = py ''msg-unknown'' \<and>
     rm_anchor (rs ! 1) = py ''msg-12-3'' \<and>
     rm_anchor (rs ! 0) = rm_anchor (rs ! 2)"
proof -
  let ?msgs = "[\<lparr>m_id = None, m_from = Some (py ''Alice''), m_to = None, m_from_status = None,
          m_to_status = None, m_date = None, m_content = None, m_images = [],
          m_attachments = [], m_in_reply_to = None\<rparr>,
        \<lparr>m_id = Some (py ''12.3''), m_from = Some (py ''Bob''), m_to = None, m_from_status = None,
          m_to_status = None, m_date = None, m_content = None, m_images = [],
          m_attachments = [], m_in_reply_to = None\<rparr>,
        \<lparr>m_id = None, m_from = Some (py ''Carol''), m_to = None, m_from_status = None,
          m_to_status = None, m_date = None, m_content = None, m_images = [],
          m_attachments = [], m_in_reply_to = None\<rparr>]"
  obtain rs ex where run: "render_messages sample_lib ?msgs Map.empty (Map.empty :: str \<rightharpoonup> nat) = Inr (rs, ex)"
    by (simp add: render_messages_def render_message_def Let_def)
  note spec = message_anchors [OF run]
  from spec have len: "length rs = 3"
    by simp
  from spec have a0: "rm_anchor (rs ! 0) = py ''msg-unknown''"
    by simp
  from spec have "1 < length ?msgs \<longrightarrow> (\<forall>mid. m_id (?msgs ! 1) = Some mid \<and> mid \<noteq> [] \<longrightarrow>
      rm_anchor (rs ! 1) = py ''msg-'' @ map (\<lambda>c. if c = 46 then 45 else c) mid)"
    by blast
  then have a1: "rm_anchor (rs ! 1) = py ''msg-12-3''"
    by simp
  from spec have "0 < length ?msgs \<longrightarrow> 2 < length ?msgs \<longrightarrow>
      m_id (?msgs ! 0) = None \<and> m_id (?msgs ! 2) = None \<longrightarrow> rm_anchor (rs ! 0) = rm_anchor (rs ! 2)"
    by blast
  then have a2: "rm_anchor (rs ! 0) = rm_anchor (rs ! 2)"
    by simp
  from len a0 a1 a2 have "length rs = 3 \<and>
     rm_anchor (rs ! 0) = py ''msg-unknown'' \<and>
     rm_anchor (rs ! 1) = py ''msg-12-3'' \<and>
     rm_anchor (rs ! 0) = rm_anchor (rs ! 2)"
    by blast
  with run show ?thesis by blast
qed

section \<open>Names and status\<close>

lemmas str_defs =
  strip_def lstrip_def rstrip_def rstrip_chars_def strip_chars_def endswith_def find_char_def
  count_char_def or_else_def truthy_def is_space_def

lemma name_parts_empty:
  "strip (or_else name []) = [] \<Longrightarrow>
     name_parts L name status =
       (py ''Unknown'', [],
        if truthy status \<and> py_lower L (the status) = py ''unread'' then Some (py ''unread'')
        else status)"
  by (simp add: name_parts_def Let_def)

lemma length_unread: "length (py ''unread'') = 6"
  by simp

lemma name_parts_detach:
  assumes "strip (or_else name []) = raw" and "raw \<noteq> []"
    and "\<not> truthy status" and "endswith (py_lower L raw) (py '' unread'')"
    and "rstrip (take (length raw - 6) raw) = rest"
    and "strip (drop (find_char 40 rest) rest) = segment"
    and "strip (take (find_char 40 rest) rest) = before"
  shows "name_parts L name status =
     (if endswith rest [41] \<and> 40 \<in> set rest \<and> count_char 40 segment = count_char 41 segment
      then (if before = [] then rest else before, segment, Some (py ''unread''))
      else (rest, [], Some (py ''unread'')))"
  unfolding name_parts_def length_unread Let_def assms(1)
  using assms(2-4) by (simp add: truthy_def assms(5) assms(6) assms(7))

lemma name_parts_keep:
  assumes "strip (or_else name []) = raw" and "raw \<noteq> []"
    and "\<not> (\<not> truthy status \<and> endswith (py_lower L raw) (py '' unread''))"
    and "strip (drop (find_char 40 raw) raw) = segment"
    and "strip (take (find_char 40 raw) raw) = before"
    and "(if truthy status \<and> py_lower L (the status) = py ''unread'' then Some (py ''unread'')
          else status) = st"
  shows "name_parts L name status =
     (if endswith raw [41] \<and> 40 \<in> set raw \<and> count_char 40 segment = count_char 41 segment
      then (if before = [] then raw else before, segment, st)
      else (raw, [], st))"
  unfolding name_parts_def length_unread Let_def assms(1)
  using assms(2,3) by (auto simp add: assms(4) assms(5) assms(6) [symmetric])

lemma format_name_html_parts:
  assumes \<open>name_parts L name status = (primary, extra, st)\<close>
  shows \<open>format_name_html L name primary_class status =
           py ''<span class="'' @ primary_class @ py ''">'' @ html_escape primary @ py ''</span>''
           @ (if extra \<noteq> []
              then py '' <span class="msg-recipient-extra">'' @ html_escape extra @ py ''</span>''
              else [])
           @ (if truthy st
              then py '' <span class="msg-status">'' @ html_escape (the st) @ py ''</span>''
              else [])\<close>
  using assms by (simp add: format_name_html_def Let_def)

text \<open>
  Claim C6, as amended. Let \<open>raw\<close> be the display string stripped of surrounding
  whitespace. When \<open>raw\<close> is not empty: if no status was supplied and \<open>raw\<close>, in lower
  case, ends with \<open>unread\<close> after a space, the last six characters and the whitespace
  before them are detached and the status becomes \<open>unread\<close>; then, if the remainder
  ends with \<open>)\<close> and its segment from the first \<open>(\<close> has as many \<open>(\<close> as \<open>)\<close>, that
  segment is the extra and what precedes it, stripped, the primary name (the whole
  remainder when nothing precedes it); otherwise the remainder is the primary name and
  there is no extra. When \<open>raw\<close> is empty or the name is absent, the primary name is the
  placeholder \<open>Unknown\<close> and there is no extra. In every case a status is rendered
  exactly when one was supplied or detached: the markup is the primary span, the extra span
  if there is an extra, and the status span if there is a status.
\<close>

theorem name_parts_spec:
  assumes \<open>name_parts L name status = (primary, extra, st)\<close>
    and \<open>raw = strip (or_else name [])\<close>
    and \<open>detach \<longleftrightarrow> raw \<noteq> [] \<and> \<not> truthy status \<and> endswith (py_lower L raw) (py '' unread'')\<close>
    and \<open>rest = (if detach then rstrip (take (length raw - 6) raw) else raw)\<close>
    and \<open>segment = strip (drop (find_char 40 rest) rest)\<close>
    and \<open>balanced \<longleftrightarrow>
           endswith rest [41] \<and> 40 \<in> set rest \<and> count_char 40 segment = count_char 41 segment\<close>
  shows \<open>(detach \<longrightarrow> st = Some (py ''unread'')) \<and>
         (\<not> detach \<longrightarrow> (truthy st \<longleftrightarrow> truthy status)) \<and>
         (raw \<noteq> [] \<and> balanced \<longrightarrow>
            extra = segment \<and>
            primary = (if strip (take (find_char 40 rest) rest) = [] then rest
                       else strip (take (find_char 40 rest) rest))) \<and>
         (raw \<noteq> [] \<and> \<not> balanced \<longrightarrow> extra = [] \<and> primary = rest) \<and>
         (raw = [] \<longrightarrow> primary = py ''Unknown'' \<and> extra = []) \<and>
         format_name_html L name primary_class status =
           py ''<span class="'' @ primary_class @ py ''">'' @ html_escape primary @ py ''</span>''
           @ (if extra \<noteq> []
              then py '' <span class="msg-recipient-extra">'' @ html_escape extra @ py ''</span>''
              else [])
           @ (if truthy st
              then py '' <span class="msg-status">'' @ html_escape (the st) @ py ''</span>''
              else [])\<close>
proof -
  define before where "before = strip (take (find_char 40 rest) rest)"
  note html = format_name_html_parts [OF assms(1), of primary_class]
  show ?thesis
  proof (cases "raw = []")
    case True
    with assms(2) have "strip (or_else name []) = []" by simp
    from name_parts_empty [OF this, of L status] assms(1)
    have "primary = py ''Unknown''" "extra = []"
      and st: "st = (if truthy status \<and> py_lower L (the status) = py ''unread''
                     then Some (py ''unread'') else status)"
      by simp_all
    moreover have "\<not> detach" using True assms(3) by simp
    moreover have "truthy st \<longleftrightarrow> truthy status"
      using st by (auto simp: truthy_def)
    ultimately show ?thesis
      using True html by simp
  next
    case False
    show ?thesis
    proof (cases detach)
      case True
      then have rest: "rstrip (take (length raw - 6) raw) = rest"
        and cond: "\<not> truthy status" "endswith (py_lower L raw) (py '' unread'')"
        using assms(3,4) by simp_all
      from name_parts_detach [OF assms(2) [symmetric] False cond rest assms(5) [symmetric]
          before_def [symmetric]] assms(1)
      have "(primary, extra, st) =
        (if balanced then (if before = [] then rest else before, segment, Some (py ''unread''))
         else (rest, [], Some (py ''unread'')))"
        using assms(6) by simp
      then have "st = Some (py ''unread'')"
        and "balanced \<Longrightarrow> extra = segment \<and> primary = (if before = [] then rest else before)"
        and "\<not> balanced \<Longrightarrow> extra = [] \<and> primary = rest"
        by (simp_all split: if_splits)
      then show ?thesis
        using True False html unfolding before_def by simp
    next
      case nd: False
      then have rest: "rest = raw"
        and cond: "\<not> (\<not> truthy status \<and> endswith (py_lower L raw) (py '' unread''))"
        using assms(3,4) False by auto
      define st' where "st' = (if truthy status \<and> py_lower L (the status) = py ''unread''
          then Some (py ''unread'') else status)"
      from name_parts_keep [OF assms(2) [symmetric] False cond assms(5) [unfolded rest, symmetric]
          before_def [unfolded rest, symmetric] st'_def [symmetric]] assms(1)
      have "(primary, extra, st) =
        (if balanced then (if before = [] then rest else before, segment, st')
         else (rest, [], st'))"
        using assms(6) rest by simp
      then have "st = st'"
        and "balanced \<Longrightarrow> extra = segment \<and> primary = (if before = [] then rest else before)"
        and "\<not> balanced \<Longrightarrow> extra = [] \<and> primary = rest"
        by (simp_all split: if_splits)
      moreover have "truthy st' \<longleftrightarrow> truthy status"
        by (auto simp: st'_def truthy_def)
      ultimately show ?thesis
        using nd False html unfolding before_def by simp
    qed
  qed
qed

theorem name_parts_spec_witness:
  \<open>name_parts sample_lib (Some (py ''Alice (guest) unread'')) None =
     (py ''Alice'', py ''(guest)'', Some (py ''unread'')) \<and>
   format_name_html sample_lib (Some (py ''Alice (guest) unread'')) (py ''msg-author-name'') None =
     py ''<span class="msg-author-name">Alice</span> <span class="msg-recipient-extra">(guest)</span> <span class="msg-status">unread</span>''\<close>
proof -
  have parts: "name_parts sample_lib (Some (py ''Alice (guest) unread'')) None =
     (py ''Alice'', py ''(guest)'', Some (py ''unread''))"
    by (simp add: name_parts_def str_defs sample_lib_def ascii_lower_def)
  have raw: "py ''Alice (guest) unread'' = strip (or_else (Some (py ''Alice (guest) unread'')) [])"
    by (simp add: str_defs)
  have detach: "True \<longleftrightarrow> py ''Alice (guest) unread'' \<noteq> [] \<and> \<not> truthy None \<and>
      endswith (py_lower sample_lib (py ''Alice (guest) unread'')) (py '' unread'')"
    by (simp add: str_defs sample_lib_def ascii_lower_def)
  have rest: "py ''Alice (guest)'' =
      (if True then rstrip (take (length (py ''Alice (guest) unread'') - 6) (py ''Alice (guest) unread''))
       else py ''Alice (guest) unread'')"
    by (simp add: str_defs)
  have segment: "py ''(guest)'' = strip (drop (find_char 40 (py ''Alice (guest)'')) (py ''Alice (guest)''))"
    by (simp add: str_defs)
  have balanced: "True \<longleftrightarrow> endswith (py ''Alice (guest)'') [41] \<and> 40 \<in> set (py ''Alice (guest)'') \<and>
      count_char 40 (py ''(guest)'') = count_char 41 (py ''(guest)'')"
    by (simp add: str_defs)
  note spec = name_parts_spec [OF parts raw detach rest segment balanced, of "py ''msg-author-name''"]
  note html = spec [THEN conjunct2, THEN conjunct2, THEN conjunct2, THEN conjunct2, THEN conjunct2]
  from html have \<open>format_name_html sample_lib (Some (py ''Alice (guest) unread'')) (py ''msg-author-name'') None =
     py ''<span class="msg-author-name">Alice</span> <span class="msg-recipient-extra">(guest)</span> <span class="msg-status">unread</span>''\<close>
    by (simp add: html_escape_def truthy_def)
  with parts show ?thesis
    by (rule conjI)
qed

text \<open>
  Claim C6 as stated fails for an absent name with an explicit status: the placeholder
  \<open>Unknown\<close> is followed by the status span, so the name is not rendered without a status
  decoration.
\<close>

theorem format_name_html_unknown_status_counterexample:
  \<open>format_name_html sample_lib None (py ''msg-author-name'') (Some (py ''unread'')) =
     py ''<span class="msg-author-name">Unknown</span> <span class="msg-status">unread</span>'' \<and>
   format_name_html sample_lib None (py ''msg-author-name'') (Some (py ''unread'')) \<noteq>
     py ''<span class="msg-author-name">Unknown</span>''\<close>
  by (simp add: format_name_html_def name_parts_def str_defs sample_lib_def ascii_lower_def
      html_escape_def)

section \<open>Timestamps\<close>

lemma html_escape_append: "html_escape (a @ b) = html_escape a @ html_escape b"
  by (simp add: html_escape_def)

lemma html_escape_plain: "\<forall>c\<in>set s. \<not> html_special c \<Longrightarrow> html_escape s = s"
  by (induction s) (auto simp: html_escape_def html_special_def)

lemma str_of_nat_digits: "\<forall>c\<in>set (str_of_nat n). 48 \<le> c \<and> c \<le> 57"
proof (induction n rule: str_of_nat.induct)
  case (1 n)
  show ?case
  proof (cases "n < 10")
    case True
    then show ?thesis by (subst str_of_nat.simps) simp
  next
    case False
    have "n mod 10 < 10" by simp
    then have "48 + n mod 10 \<le> 57" by linarith
    with 1 False show ?thesis
      by (subst str_of_nat.simps) auto
  qed
qed

lemma str_of_nat_nonempty: "str_of_nat n \<noteq> []"
  by (subst str_of_nat.simps) simp

lemma zpad_digits: "\<forall>c\<in>set (zpad w n). 48 \<le> c \<and> c \<le> 57"
  using str_of_nat_digits [of n] by (auto simp: zpad_def)

lemma zpad_nonempty: "zpad w n \<noteq> []"
  by (simp add: zpad_def str_of_nat_nonempty)

lemma digits_plain: "\<forall>c\<in>set s. 48 \<le> c \<and> c \<le> 57 \<Longrightarrow> \<forall>c\<in>set s. \<not> html_special c"
  by (auto simp: html_special_def)

lemma digits_not_space: "48 \<le> c \<and> c \<le> (57::nat) \<Longrightarrow> \<not> is_space c"
  by (auto simp: is_space_def)

lemma month_abbr_plain: "\<forall>c\<in>set (month_abbr m). \<not> html_special c"
proof (cases "1 \<le> m \<and> m \<le> 12")
  case False
  then show ?thesis by (auto simp: month_abbr_def)
next
  case True
  define names where "names = [py ''Jan'', py ''Feb'', py ''Mar'', py ''Apr'', py ''May'',
    py ''Jun'', py ''Jul'', py ''Aug'', py ''Sep'', py ''Oct'', py ''Nov'', py ''Dec'']"
  have all: "\<forall>s\<in>set names. \<forall>c\<in>set s. \<not> html_special c"
    by (simp add: names_def html_special_def)
  have "length names = 12"
    by (simp add: names_def)
  then have "m - 1 < length names"
    using True by linarith
  then have "names ! (m - 1) \<in> set names"
    by (rule nth_mem)
  with all have "\<forall>c\<in>set (names ! (m - 1)). \<not> html_special c"
    by blast
  moreover have "month_abbr m = names ! (m - 1)"
    using True unfolding month_abbr_def names_def by simp
  ultimately show ?thesis by simp
qed

lemma strip_id:
  assumes "s \<noteq> []" and "\<not> is_space (hd s)" and "\<not> is_space (last s)"
  shows "strip s = s"
proof -
  have "dropWhile is_space s = s"
    using assms(1,2) by (cases s) auto
  moreover have "dropWhile is_space (rev s) = rev s"
  proof (cases "rev s")
    case Nil
    then show ?thesis by simp
  next
    case (Cons c cs)
    then have "s = rev cs @ [c]"
      by (metis rev.simps(2) rev_rev_ident)
    then have "last s = c" by simp
    with assms(3) Cons show ?thesis by simp
  qed
  ultimately show ?thesis
    by (simp add: strip_def lstrip_def rstrip_def)
qed

lemma parse_date_or_else: "parse_date L (Some (or_else date [])) = parse_date L date"
  by (cases date) (auto simp: parse_date_def or_else_def)

lemma format_time_component_nonempty: "format_time_component d \<noteq> []"
  by (simp add: format_time_component_def Let_def)

lemma short_date_strip:
  "strip (str_of_nat a @ 47 # zpad 2 b @ 47 # zpad 2 c) =
     str_of_nat a @ 47 # zpad 2 b @ 47 # zpad 2 c"
proof (rule strip_id)
  show "str_of_nat a @ 47 # zpad 2 b @ 47 # zpad 2 c \<noteq> []"
    by simp
next
  have "hd (str_of_nat a) \<in> set (str_of_nat a)"
    by (simp add: str_of_nat_nonempty)
  then have "\<not> is_space (hd (str_of_nat a))"
    using str_of_nat_digits [of a] digits_not_space by blast
  then show "\<not> is_space (hd (str_of_nat a @ 47 # zpad 2 b @ 47 # zpad 2 c))"
    by (simp add: str_of_nat_nonempty)
next
  have "last (zpad 2 c) \<in> set (zpad 2 c)"
    by (simp add: zpad_nonempty)
  then have "\<not> is_space (last (zpad 2 c))"
    using zpad_digits [of 2 c] digits_not_space by blast
  then show "\<not> is_space (last (str_of_nat a @ 47 # zpad 2 b @ 47 # zpad 2 c))"
    by (simp add: zpad_nonempty)
qed

lemma message_timestamp_parsed:
  assumes "parse_date L date = Some d"
  shows "message_timestamp_text L date =
     str_of_nat (dt_month d) @ py ''/'' @ zpad 2 (dt_day d) @ py ''/'' @ zpad 2 (dt_year d mod 100)
       @ py '' '' @ format_time_component d"
  using assms
  by (simp add: message_timestamp_text_def parse_date_or_else format_date_short_def Let_def
      short_date_strip format_time_component_nonempty)

lemma message_timestamp_unparsed:
  assumes "parse_date L date = None"
  shows "message_timestamp_text L date = strip (or_else date [])"
  using assms
  by (simp add: message_timestamp_text_def parse_date_or_else Let_def)

lemma plain_append:
  "\<forall>c\<in>set a. \<not> html_special c \<Longrightarrow> \<forall>c\<in>set b. \<not> html_special c \<Longrightarrow>
     \<forall>c\<in>set (a @ b). \<not> html_special c"
  by auto

lemma thread_date_display_plain: "html_escape (thread_date_display d) = thread_date_display d"
proof (rule html_escape_plain)
  show "\<forall>c\<in>set (thread_date_display d). \<not> html_special c"
  proof (cases d)
    case None
    then show ?thesis by (simp add: thread_date_display_def html_special_def)
  next
    case (Some t)
    have z: "\<And>w n. \<forall>c\<in>set (zpad w n). \<not> html_special c"
      by (rule digits_plain) (rule zpad_digits)
    have s: "\<And>n. \<forall>c\<in>set (str_of_nat n). \<not> html_special c"
      by (rule digits_plain) (rule str_of_nat_digits)
    have lit: "\<forall>c\<in>set (py '' ''). \<not> html_special c" "\<forall>c\<in>set (py '', ''). \<not> html_special c"
      "\<forall>c\<in>set (py '':''). \<not> html_special c" "\<forall>c\<in>set (py ''AM''). \<not> html_special c"
      "\<forall>c\<in>set (py ''PM''). \<not> html_special c"
      by (simp_all add: html_special_def)
    have ampm: "\<forall>c\<in>set (if dt_hour t < 12 then py ''AM'' else py ''PM''). \<not> html_special c"
      using lit by (simp del: list.map)
    show ?thesis
      unfolding Some thread_date_display_def option.case
      by (intro plain_append z s lit ampm month_abbr_plain)
  qed
qed

text \<open>
  Claim C9, as amended. The rows of a folder table show the first date of a thread as
  \<open>MM/DD/YYYY\<close> (month and day in two digits, the year in four), or \<open>Unknown\<close> when the
  date is absent. The metadata of a thread page shows the first and the last date as
  \<open>Mon DD, YYYY HH:MM AM\<close> or \<open>PM\<close> (the hour of the twelve-hour clock in two digits and
  a space before \<open>AM\<close>/\<open>PM\<close>), or \<open>N/A\<close> when the date is absent. A message header shows
  \<open>M/DD/YY\<close> (the month as it is, day and year in two digits), a space and \<open>h:mmAM\<close> or
  \<open>PM\<close> when the date of the message parses; otherwise it shows the raw date string,
  stripped, which is empty when the message has no date. None of the three fails.
\<close>

theorem timestamp_display:
  "row_first_date (folder_row_of t) =
     (case t_first_date t of
        None \<Rightarrow> py ''Unknown''
      | Some d \<Rightarrow> zpad 2 (dt_month d) @ py ''/'' @ zpad 2 (dt_day d) @ py ''/'' @ zpad 4 (dt_year d)) \<and>
   tp_first_display (render_thread_html t ms) =
     (case t_first_date t of
        None \<Rightarrow> py ''N/A''
      | Some d \<Rightarrow>
          month_abbr (dt_month d) @ py '' '' @ zpad 2 (dt_day d) @ py '', '' @ str_of_nat (dt_year d)
            @ py '' '' @ zpad 2 (if dt_hour d mod 12 = 0 then 12 else dt_hour d mod 12) @ py '':''
            @ zpad 2 (dt_minute d) @ py '' '' @ (if dt_hour d < 12 then py ''AM'' else py ''PM'')) \<and>
   tp_last_display (render_thread_html t ms) =
     (case t_last_date t of
        None \<Rightarrow> py ''N/A''
      | Some d \<Rightarrow>
          month_abbr (dt_month d) @ py '' '' @ zpad 2 (dt_day d) @ py '', '' @ str_of_nat (dt_year d)
            @ py '' '' @ zpad 2 (if dt_hour d mod 12 = 0 then 12 else dt_hour d mod 12) @ py '':''
            @ zpad 2 (dt_minute d) @ py '' '' @ (if dt_hour d < 12 then py ''AM'' else py ''PM'')) \<and>
   (\<forall>d. parse_date L date = Some d \<longrightarrow>
      message_timestamp_text L date =
        str_of_nat (dt_month d) @ py ''/'' @ zpad 2 (dt_day d) @ py ''/''
          @ zpad 2 (dt_year d mod 100) @ py '' ''
          @ str_of_nat (if dt_hour d mod 12 = 0 then 12 else dt_hour d mod 12) @ py '':''
          @ zpad 2 (dt_minute d) @ (if dt_hour d < 12 then py ''AM'' else py ''PM'')) \<and>
   (parse_date L date = None \<longrightarrow> message_timestamp_text L date = strip (or_else date []))"
proof -
  have row: "row_first_date (folder_row_of t) = format_folder_date (t_first_date t)"
    by (simp add: folder_row_of_def Let_def)
  have first: "tp_first_display (render_thread_html t ms) = thread_date_display (t_first_date t)"
    by (simp add: render_thread_html_def thread_date_display_plain)
  have last: "tp_last_display (render_thread_html t ms) = thread_date_display (t_last_date t)"
    by (simp add: render_thread_html_def thread_date_display_plain)
  have parsed: "message_timestamp_text L date =
        str_of_nat (dt_month d) @ py ''/'' @ zpad 2 (dt_day d) @ py ''/''
          @ zpad 2 (dt_year d mod 100) @ py '' ''
          @ str_of_nat (if dt_hour d mod 12 = 0 then 12 else dt_hour d mod 12) @ py '':''
          @ zpad 2 (dt_minute d) @ (if dt_hour d < 12 then py ''AM'' else py ''PM'')"
    if "parse_date L date = Some d" for d
    using message_timestamp_parsed [OF that]
    by (simp add: format_time_component_def Let_def)
  show ?thesis
    unfolding row first last
    using parsed message_timestamp_unparsed [of L date]
    by (simp add: format_folder_date_def thread_date_display_def split: option.split)
qed

theorem timestamp_display_witness:
  "row_first_date (folder_row_of sample_thread) = py ''03/05/2024'' \<and>
   tp_first_display (render_thread_html sample_thread []) = py ''Mar 05, 2024 02:07 PM'' \<and>
   tp_last_display (render_thread_html sample_thread []) = py ''N/A'' \<and>
   message_timestamp_text sample_lib (Some (py ''Tue Mar 05 14:07:09 2024'')) = py ''3/05/24 2:07PM''"
proof -
  have parse: "parse_date sample_lib (Some (py ''Tue Mar 05 14:07:09 2024'')) = Some sample_date"
    by (simp add: parse_date_def sample_lib_def sample_strptime_def sample_date_def)
  note spec = timestamp_display [of sample_thread "[]" sample_lib "Some (py ''Tue Mar 05 14:07:09 2024'')"]
  from spec have "row_first_date (folder_row_of sample_thread) = py ''03/05/2024''"
    by (simp add: sample_thread_def sample_date_def zpad_def str_of_nat.simps)
  moreover from spec have "tp_first_display (render_thread_html sample_thread []) = py ''Mar 05, 2024 02:07 PM''"
    by (simp add: sample_thread_def sample_date_def zpad_def str_of_nat.simps month_abbr_def)
  moreover from spec have "tp_last_display (render_thread_html sample_thread []) = py ''N/A''"
    by (simp add: sample_thread_def)
  moreover from spec parse
  have "message_timestamp_text sample_lib (Some (py ''Tue Mar 05 14:07:09 2024'')) = py ''3/05/24 2:07PM''"
    by (simp add: sample_date_def zpad_def str_of_nat.simps)
  ultimately show ?thesis by blast
qed

text \<open>
  Claim C9 as stated fails for 5 March 2024, 14:07: the row of the folder table shows
  \<open>03/05/2024\<close>, not the short form \<open>3/5/24\<close>; the message header shows
  \<open>3/05/24 2:07PM\<close>, not the verbose form \<open>Mar 05, 2024 2:07PM\<close>; and the header of a
  message without a date shows the empty string, neither \<open>unknown\<close> nor \<open>N/A\<close>.
\<close>

theorem timestamp_display_counterexample:
  "row_first_date (folder_row_of sample_thread) \<noteq> spec_short_date sample_date \<and>
   message_timestamp_text sample_lib (Some (py ''Tue Mar 05 14:07:09 2024''))
     \<noteq> spec_verbose_timestamp sample_date \<and>
   message_timestamp_text sample_lib None = []"
  by (simp add: folder_row_of_def format_folder_date_def sample_thread_def sample_date_def
      spec_short_date_def spec_verbose_timestamp_def message_timestamp_text_def parse_date_def
      sample_lib_def sample_strptime_def format_date_short_def format_time_component_def
      month_abbr_def zpad_def str_of_nat.simps str_defs)

section \<open>Snippets\<close>

lemma single_spaced_Cons:
  "single_spaced (a # xs) \<longleftrightarrow>
     (is_space a \<longrightarrow> a = 32) \<and> (xs \<noteq> [] \<longrightarrow> \<not> (is_space a \<and> is_space (hd xs))) \<and> single_spaced xs"
  by (cases xs) auto

lemma single_spaced_tl: "single_spaced (a # xs) \<Longrightarrow> single_spaced xs"
  by (simp add: single_spaced_Cons)

lemma single_spaced_drop: "single_spaced s \<Longrightarrow> single_spaced (drop n s)"
proof (induction n arbitrary: s)
  case 0
  then show ?case by simp
next
  case (Suc n)
  then show ?case by (cases s) (auto dest: single_spaced_tl)
qed

lemma single_spaced_take: "single_spaced s \<Longrightarrow> single_spaced (take n s)"
proof (induction s arbitrary: n)
  case Nil
  then show ?case by simp
next
  case (Cons a s)
  show ?case
  proof (cases n)
    case 0
    then show ?thesis by simp
  next
    case (Suc k)
    have "single_spaced (take k s)"
      using Cons by (simp add: single_spaced_Cons)
    moreover have "take k s \<noteq> [] \<Longrightarrow> hd (take k s) = hd s \<and> s \<noteq> []"
      by (cases s; cases k) auto
    ultimately show ?thesis
      using Cons.prems Suc by (auto simp: single_spaced_Cons)
  qed
qed

lemma single_spaced_adjacent:
  "single_spaced (u @ a # b # v) \<Longrightarrow> \<not> (is_space a \<and> is_space b)"
  by (induction u) (auto simp: single_spaced_Cons)

lemma single_spaced_space: "single_spaced s \<Longrightarrow> c \<in> set s \<Longrightarrow> is_space c \<Longrightarrow> c = 32"
  by (induction s) (auto simp: single_spaced_Cons)

lemma collapse_ws_hd:
  "s \<noteq> [] \<Longrightarrow> \<not> is_space (hd s) \<Longrightarrow> collapse_ws s \<noteq> [] \<and> hd (collapse_ws s) = hd s"
  by (cases s) auto

lemma dropWhile_hd: "dropWhile P s \<noteq> [] \<Longrightarrow> \<not> P (hd (dropWhile P s))"
  by (metis hd_dropWhile)

lemma single_spaced_collapse_ws: "single_spaced (collapse_ws s)"
proof (induction s rule: collapse_ws.induct)
  case 1
  then show ?case by simp
next
  case (2 c cs)
  show ?case
  proof (cases "is_space c")
    case True
    define r where "r = dropWhile is_space cs"
    have ih: "single_spaced (collapse_ws r)"
      using 2(1) True by (simp add: r_def)
    have "collapse_ws r \<noteq> [] \<Longrightarrow> \<not> is_space (hd (collapse_ws r))"
    proof -
      assume ne: "collapse_ws r \<noteq> []"
      then have "r \<noteq> []" by auto
      then have "\<not> is_space (hd r)"
        unfolding r_def by (rule dropWhile_hd)
      with \<open>r \<noteq> []\<close> show ?thesis
        using collapse_ws_hd by auto
    qed
    with ih True show ?thesis
      by (auto simp: single_spaced_Cons r_def [symmetric])
  next
    case False
    with 2(2) show ?thesis
      by (auto simp: single_spaced_Cons)
  qed
qed

lemma rstrip_take: "rstrip s = take (length s - length (takeWhile is_space (rev s))) s"
  by (simp add: rstrip_def dropWhile_eq_drop rev_drop)

lemma lstrip_drop: "lstrip s = drop (length (takeWhile is_space s)) s"
  by (simp add: lstrip_def dropWhile_eq_drop)

lemma single_spaced_strip: "single_spaced s \<Longrightarrow> single_spaced (strip s)"
  unfolding strip_def
  by (subst rstrip_take, subst lstrip_drop) (intro single_spaced_take single_spaced_drop)

lemma rstrip_last: "rstrip s \<noteq> [] \<Longrightarrow> \<not> is_space (last (rstrip s))"
proof -
  assume ne: "rstrip s \<noteq> []"
  then have "dropWhile is_space (rev s) \<noteq> []"
    by (simp add: rstrip_def)
  then have "\<not> is_space (hd (dropWhile is_space (rev s)))"
    by (rule dropWhile_hd)
  then show ?thesis
    using ne by (simp add: rstrip_def last_rev)
qed

lemma trimmed_strip: "trimmed (strip s)"
proof (cases "strip s = []")
  case True
  then show ?thesis by (simp add: trimmed_def)
next
  case False
  define l where "l = lstrip s"
  have ne: "rstrip l \<noteq> []" using False by (simp add: strip_def l_def)
  then have "l \<noteq> []" by (auto simp: rstrip_def)
  then have "\<not> is_space (hd l)"
    unfolding l_def lstrip_def by (rule dropWhile_hd)
  moreover have "hd (rstrip l) = hd l"
    using ne by (subst rstrip_take) (metis hd_take rstrip_take take_eq_Nil2 gr0I)
  moreover have "\<not> is_space (last (rstrip l))"
    using ne by (rule rstrip_last)
  ultimately show ?thesis
    by (simp add: trimmed_def strip_def l_def)
qed

lemma strip_html_normal: "single_spaced (strip_html L text) \<and> trimmed (strip_html L text)"
proof (cases "text")
  case None
  then show ?thesis by (simp add: strip_html_def trimmed_def)
next
  case (Some t)
  then show ?thesis
    by (simp add: strip_html_def trimmed_strip single_spaced_strip single_spaced_collapse_ws)
qed

lemma rsplit_space_head_none: "32 \<notin> set s \<Longrightarrow> rsplit_space_head s = s"
  by (simp add: rsplit_space_head_def)

lemma rsplit_space_head_split:
  assumes "s = h @ 32 # tail" and "32 \<notin> set tail"
  shows "rsplit_space_head s = h"
proof -
  have "rev s = rev tail @ 32 # rev h"
    using assms(1) by simp
  moreover have "dropWhile (\<lambda>c. c \<noteq> 32) (rev tail @ 32 # rev h) = 32 # rev h"
    using assms(2) by (subst dropWhile_append3) auto
  ultimately show ?thesis
    using assms(1) by (simp add: rsplit_space_head_def)
qed

lemma length_rsplit_space_head: "length (rsplit_space_head s) \<le> length s"
proof -
  have "length (tl (dropWhile (\<lambda>c. c \<noteq> 32) (rev s))) \<le> length (rev s)"
    using length_dropWhile_le [of "\<lambda>c. c \<noteq> 32" "rev s"] by simp
  then show ?thesis
    by (simp add: rsplit_space_head_def)
qed

lemma length_strip: "length (strip s) \<le> length s"
proof -
  have "length (rstrip (lstrip s)) \<le> length (lstrip s)"
    by (simp add: rstrip_def length_dropWhile_le [of is_space "rev (lstrip s)", simplified])
  also have "\<dots> \<le> length s"
    by (simp add: lstrip_def length_dropWhile_le)
  finally show ?thesis by (simp add: strip_def)
qed

lemma length_rstrip_chars: "length (rstrip_chars cs s) \<le> length s"
  using length_dropWhile_le [of "\<lambda>c. c \<in> set cs" "rev s"] by (simp add: rstrip_chars_def)

lemma endswith_single: "endswith s [c] \<longleftrightarrow> s \<noteq> [] \<and> last s = c"
proof (cases s rule: rev_cases)
  case Nil
  then show ?thesis by (simp add: endswith_def)
next
  case (snoc ys y)
  then show ?thesis by (auto simp: endswith_def)
qed

lemma rstrip_chars_last:
  "rstrip_chars cs s \<noteq> [] \<Longrightarrow> last (rstrip_chars cs s) \<notin> set cs"
proof -
  assume ne: "rstrip_chars cs s \<noteq> []"
  then have "dropWhile (\<lambda>c. c \<in> set cs) (rev s) \<noteq> []"
    by (simp add: rstrip_chars_def)
  then have "hd (dropWhile (\<lambda>c. c \<in> set cs) (rev s)) \<notin> set cs"
    by (rule dropWhile_hd)
  then show ?thesis
    using ne by (simp add: rstrip_chars_def last_rev)
qed

lemma rstrip_chars_id: "s = [] \<or> last s \<notin> set cs \<Longrightarrow> rstrip_chars cs s = s"
proof (cases s rule: rev_cases)
  case Nil
  then show ?thesis by (simp add: rstrip_chars_def)
next
  case (snoc ys y)
  assume "s = [] \<or> last s \<notin> set cs"
  with snoc show ?thesis by (simp add: rstrip_chars_def)
qed

text \<open>The last step of \<^verbatim>\<open>build_snippet\<close> strips the punctuation whether or not the
  test for it is made first.\<close>

lemma strip_punctuation:
  "(if endswith t [46] \<or> endswith t [44] \<or> endswith t [59] then rstrip_chars [46, 44, 59] t else t)
     = rstrip_chars [46, 44, 59] t"
  by (auto simp: endswith_single intro!: rstrip_chars_id [symmetric])

lemma build_snippet_long:
  assumes "max_length < length (strip_html L text)"
  shows "build_snippet L text max_length =
     rstrip_chars [46, 44, 59]
       (if strip (rsplit_space_head (take max_length (strip_html L text))) = []
        then strip (take max_length (strip_html L text))
        else strip (rsplit_space_head (take max_length (strip_html L text)))) @ py ''...''"
  using assms unfolding build_snippet_def Let_def strip_punctuation by simp

lemma no_punctuation_end:
  "\<not> endswith (rstrip_chars [46, 44, 59] t) [46] \<and> \<not> endswith (rstrip_chars [46, 44, 59] t) [44] \<and>
   \<not> endswith (rstrip_chars [46, 44, 59] t) [59]"
  using rstrip_chars_last [of "[46, 44, 59]" t] by (auto simp: endswith_single)

text \<open>
  Claim C5. The stripped text of a message body has its whitespace collapsed to single
  spaces and is trimmed. When it has at most \<open>max_length\<close> characters (180 in the
  exporter), the snippet is that text. When it is longer, the snippet ends with the
  marker \<open>...\<close>, what precedes the marker has at most \<open>max_length\<close> characters and
  does not end with \<open>.\<close>, \<open>,\<close> or \<open>;\<close>; it is the text before the last space among the
  first \<open>max_length\<close> characters, or all of these characters when there is no space among
  them, with the trailing punctuation stripped.
\<close>

theorem build_snippet_spec:
  assumes "plain = strip_html L text"
  shows "single_spaced plain \<and> trimmed plain \<and>
    (length plain \<le> max_length \<longrightarrow> build_snippet L text max_length = plain) \<and>
    (max_length < length plain \<longrightarrow>
       (\<exists>t. build_snippet L text max_length = t @ py ''...'' \<and> length t \<le> max_length \<and>
            \<not> endswith t [46] \<and> \<not> endswith t [44] \<and> \<not> endswith t [59]) \<and>
       (32 \<notin> set (take max_length plain) \<longrightarrow>
          build_snippet L text max_length =
            rstrip_chars [46, 44, 59] (take max_length plain) @ py ''...'') \<and>
       (\<forall>h tail. take max_length plain = h @ 32 # tail \<and> 32 \<notin> set tail \<longrightarrow>
          build_snippet L text max_length = rstrip_chars [46, 44, 59] h @ py ''...''))"
proof -
  have normal: "single_spaced plain" "trimmed plain"
    using strip_html_normal [of L "text"] assms by simp_all
  have short: "build_snippet L text max_length = plain" if "length plain \<le> max_length"
    using that assms by (simp add: build_snippet_def)
  {
    assume long: "max_length < length plain"
    define s where "s = take max_length plain"
    define t where "t = (if strip (rsplit_space_head s) = [] then strip s
      else strip (rsplit_space_head s))"
    have snippet: "build_snippet L text max_length = rstrip_chars [46, 44, 59] t @ py ''...''"
      using build_snippet_long [of max_length L "text"] long assms by (simp add: t_def s_def)
    have "length s \<le> max_length" by (simp add: s_def)
    moreover have "length t \<le> length s"
      using length_strip [of s] length_strip [of "rsplit_space_head s"]
        length_rsplit_space_head [of s]
      by (auto simp: t_def)
    ultimately have "length (rstrip_chars [46, 44, 59] t) \<le> max_length"
      using length_rstrip_chars [of "[46, 44, 59]" t] by linarith
    then have ex: "\<exists>t. build_snippet L text max_length = t @ py ''...'' \<and> length t \<le> max_length \<and>
            \<not> endswith t [46] \<and> \<not> endswith t [44] \<and> \<not> endswith t [59]"
      using snippet no_punctuation_end [of t] by blast
    have plain_s: "plain = s @ drop max_length plain"
      by (simp add: s_def)
    have hard_cut: "build_snippet L text max_length = rstrip_chars [46, 44, 59] s @ py ''...''"
      if no: "32 \<notin> set s"
    proof -
      have "\<forall>c\<in>set s. \<not> is_space c"
      proof
        fix c assume c: "c \<in> set s"
        then have "c \<in> set plain" unfolding s_def by (rule in_set_takeD)
        with normal(1) have "is_space c \<Longrightarrow> c = 32" by (rule single_spaced_space)
        with c no show "\<not> is_space c" by auto
      qed
      then have "dropWhile is_space s = s" and "dropWhile is_space (rev s) = rev s"
        by (auto simp: dropWhile_eq_self_iff hd_rev)
      then have "strip s = s"
        by (simp add: strip_def lstrip_def rstrip_def)
      then have "t = s"
        using no by (auto simp: t_def rsplit_space_head_none)
      with snippet show ?thesis by simp
    qed
    have last_space: "build_snippet L text max_length = rstrip_chars [46, 44, 59] h @ py ''...''"
      if split: "s = h @ 32 # tail" and tail: "32 \<notin> set tail" for h tail
    proof -
      define rest where "rest = tail @ drop max_length plain"
      have plain_h: "plain = h @ 32 # rest"
        using plain_s split by (simp add: rest_def)
      have space: "is_space 32" by (simp add: is_space_def)
      have ne: "plain \<noteq> []" using long by auto
      have "h \<noteq> []"
      proof
        assume "h = []"
        then have "hd plain = 32" by (simp add: plain_h)
        with normal(2) ne space show False by (simp add: trimmed_def)
      qed
      then have "hd plain = hd h" by (simp add: plain_h)
      then have hd_h: "\<not> is_space (hd h)"
        using normal(2) ne by (simp add: trimmed_def)
      have "h = butlast h @ [last h]"
        using \<open>h \<noteq> []\<close> by simp
      then have "plain = butlast h @ last h # 32 # rest"
        using plain_h by (metis append_Cons append_Nil append_assoc)
      with normal(1) have "\<not> (is_space (last h) \<and> is_space 32)"
        by (metis single_spaced_adjacent)
      with space have last_h: "\<not> is_space (last h)" by simp
      have "strip h = h"
        using \<open>h \<noteq> []\<close> hd_h last_h by (rule strip_id)
      moreover have "rsplit_space_head s = h"
        using split tail by (rule rsplit_space_head_split)
      ultimately have "t = h"
        using \<open>h \<noteq> []\<close> by (simp add: t_def)
      with snippet show ?thesis by simp
    qed
    have "(\<exists>t. build_snippet L text max_length = t @ py ''...'' \<and> length t \<le> max_length \<and>
            \<not> endswith t [46] \<and> \<not> endswith t [44] \<and> \<not> endswith t [59]) \<and>
       (32 \<notin> set (take max_length plain) \<longrightarrow>
          build_snippet L text max_length =
            rstrip_chars [46, 44, 59] (take max_length plain) @ py ''...'') \<and>
       (\<forall>h tail. take max_length plain = h @ 32 # tail \<and> 32 \<notin> set tail \<longrightarrow>
          build_snippet L text max_length = rstrip_chars [46, 44, 59] h @ py ''...'')"
      using ex hard_cut last_space unfolding s_def by blast
  }
  then show ?thesis
    using normal short by blast
qed


theorem build_snippet_spec_witness:
  "length (strip_html sample_lib (Some sample_body)) = 241 \<and>
   build_snippet sample_lib (Some sample_body) 180 =
     py ''The quick brown fox jumps over the lazy dog and keeps running through the forest''
       @ py '' until the evening light fades behind the far hills, while the river carries fal''
       @ py ''len leaves away...''"
proof -
  define plain where "plain = strip_html sample_lib (Some sample_body)"
  have len: "length plain = 241"
    unfolding plain_def
    by (simp add: sample_body_def strip_html_def sample_lib_def tag_rest_length_def is_space_def
        strip_def lstrip_def rstrip_def)
  have first: "take 180 plain =
     (py ''The quick brown fox jumps over the lazy dog and keeps running through the forest''
       @ py '' until the evening light fades behind the far hills, while the river carries fal''
       @ py ''len leaves away;'')
       @ 32 # py ''the''"
    unfolding plain_def
    by (simp add: sample_body_def strip_html_def sample_lib_def tag_rest_length_def is_space_def
        strip_def lstrip_def rstrip_def)
  have tail: "32 \<notin> set (py ''the'')"
    by simp
  note spec = build_snippet_spec [OF plain_def, of 180]
  from spec len have "\<forall>h tail. take 180 plain = h @ 32 # tail \<and> 32 \<notin> set tail \<longrightarrow>
      build_snippet sample_lib (Some sample_body) 180 = rstrip_chars [46, 44, 59] h @ py ''...''"
    by simp
  from this [rule_format, OF conjI, OF first tail]
  have "build_snippet sample_lib (Some sample_body) 180 =
     py ''The quick brown fox jumps over the lazy dog and keeps running through the forest''
       @ py '' until the evening light fades behind the far hills, while the river carries fal''
       @ py ''len leaves away...''"
    by (simp add: rstrip_chars_def)
  with len show ?thesis
    by (simp add: plain_def)
qed

section \<open>The export driver\<close>

lemma process_thread_no_messages:
  "td_messages data = None \<or> td_messages data = Some [] \<Longrightarrow>
     process_thread L store_files (stem, data) state = Inr state"
  by (cases state) (auto simp: process_thread_def)

lemma main_loop_append:
  "main_loop L store_files (xs @ ys) state =
     (case main_loop L store_files xs state of
        Inl e \<Rightarrow> Inl e
      | Inr state' \<Rightarrow> main_loop L store_files ys state')"
  by (induction xs arbitrary: state) (auto split: sum.splits)

lemma main_loop_skip:
  assumes "td_messages data = None \<or> td_messages data = Some []"
  shows "main_loop L store_files (before @ (stem, data) # after) state =
         main_loop L store_files (before @ after) state"
  using assms
  by (simp add: main_loop_append process_thread_no_messages split: sum.splits)

text \<open>
  Claim C3. A thread record whose message list is empty or absent is dropped before
  anything is built from it: the run with the record gives the same thread pages, the
  same folder pages, the same index and the same exported files (or the same exception) as
  the run without it. So no thread page is written for it and no folder listing and no
  index entry mentions it.
\<close>

theorem main_drops_empty_thread:
  assumes "td_messages data = None \<or> td_messages data = Some []"
  shows "main L store_files export_files (before @ (stem, data) # after) =
         main L store_files export_files (before @ after)"
  using assms by (simp add: main_def main_loop_skip)

theorem main_drops_empty_thread_witness:
  "main sample_lib Map.empty (Map.empty :: str \<rightharpoonup> nat)
     [(py ''7'', \<lparr>td_thead_id = None, td_metadata = None, td_messages = Some []\<rparr>),
      (py ''8'', \<lparr>td_thead_id = None, td_metadata = None, td_messages = None\<rparr>)] =
   Inr \<lparr>site_threads = Map.empty, site_folders = Map.empty, site_index = [],
        site_files = Map.empty\<rparr>"
proof -
  have "main sample_lib Map.empty (Map.empty :: str \<rightharpoonup> nat)
     ([] @ (py ''7'', \<lparr>td_thead_id = None, td_metadata = None, td_messages = Some []\<rparr>) #
      [(py ''8'', \<lparr>td_thead_id = None, td_metadata = None, td_messages = None\<rparr>)]) =
     main sample_lib Map.empty Map.empty
       ([] @ [(py ''8'', \<lparr>td_thead_id = None, td_metadata = None, td_messages = None\<rparr>)])"
    by (rule main_drops_empty_thread) simp
  also have "\<dots> = main sample_lib Map.empty Map.empty ([] @ [])"
    using main_drops_empty_thread [of "\<lparr>td_thead_id = None, td_metadata = None, td_messages = None\<rparr>"
        sample_lib Map.empty "Map.empty :: str \<rightharpoonup> nat" "[]" "py ''8''" "[]"]
    by simp
  also have "\<dots> = Inr \<lparr>site_threads = Map.empty, site_folders = Map.empty, site_index = [],
        site_files = Map.empty\<rparr>"
    by (simp add: main_def folder_sections_of_def render_index_html_def)
  finally show ?thesis by simp
qed

section \<open>Reply counts\<close>

text \<open>What \<^verbatim>\<open>main\<close> appends to \<^verbatim>\<open>threads\<close> for a record with messages.\<close>

lemma process_thread_Inr:
  assumes "process_thread L store_files (stem, data) (pages, files, threads) = Inr (pages', files', threads')"
  shows "threads' = threads \<or>
         (\<exists>m ms. td_messages data = Some (m # ms) \<and>
            threads' = threads @ [build_thread L stem data m (m # ms)])"
proof (cases "td_messages data")
  case None
  with assms show ?thesis by (simp add: process_thread_def)
next
  case (Some ms)
  show ?thesis
  proof (cases ms)
    case Nil
    with Some assms show ?thesis by (simp add: process_thread_def)
  next
    case (Cons m rest)
    with Some assms show ?thesis
      by (auto simp: process_thread_def Let_def split: sum.splits)
  qed
qed

lemma main_loop_threads:
  assumes "main_loop L store_files recs (pages, files, threads) = Inr (pages', files', threads')"
    and "t \<in> set threads'"
  shows "t \<in> set threads \<or>
         (\<exists>stem data m ms. (stem, data) \<in> set recs \<and> td_messages data = Some (m # ms) \<and>
            t = build_thread L stem data m (m # ms))"
  using assms
proof (induction recs arbitrary: pages files threads)
  case Nil
  then show ?case by simp
next
  case (Cons r recs)
  obtain stem data where r: "r = (stem, data)" by (cases r)
  from Cons.prems(1) obtain p1 f1 th1 where
    step: "process_thread L store_files (stem, data) (pages, files, threads) = Inr (p1, f1, th1)" and
    rest: "main_loop L store_files recs (p1, f1, th1) = Inr (pages', files', threads')"
    by (auto simp: r split: sum.splits)
  from Cons.IH [OF rest Cons.prems(2)]
  consider "t \<in> set th1"
    | "\<exists>stem data m ms. (stem, data) \<in> set recs \<and> td_messages data = Some (m # ms) \<and>
            t = build_thread L stem data m (m # ms)"
    by blast
  then show ?case
  proof cases
    case 1
    from process_thread_Inr [OF step]
    consider "th1 = threads"
      | m ms where "td_messages data = Some (m # ms)"
          "th1 = threads @ [build_thread L stem data m (m # ms)]"
      by blast
    then show ?thesis
    proof cases
      case 1
      with \<open>t \<in> set th1\<close> show ?thesis by simp
    next
      case 2
      show ?thesis
      proof (cases "t \<in> set threads")
        case True
        then show ?thesis ..
      next
        case False
        with \<open>t \<in> set th1\<close> 2 have "t = build_thread L stem data m (m # ms)"
          by simp
        moreover have "(stem, data) \<in> set (r # recs)"
          by (simp add: r)
        ultimately show ?thesis
          using 2(1) by blast
      qed
    qed
  next
    case 2
    then obtain stem' data' m ms where "(stem', data') \<in> set recs"
      "td_messages data' = Some (m # ms)" "t = build_thread L stem' data' m (m # ms)"
      by blast
    moreover then have "(stem', data') \<in> set (r # recs)" by simp
    ultimately show ?thesis by blast
  qed
qed

lemma add_to_folders_threads:
  assumes "(n, f) \<in> set (add_to_folders L t folders)" and "x \<in> set (f_threads f)"
  shows "x = t \<or> (\<exists>n' f'. (n', f') \<in> set folders \<and> x \<in> set (f_threads f'))"
  using assms
  by (auto simp: add_to_folders_def Let_def split: if_splits)

lemma assemble_folders_threads:
  assumes "(n, f) \<in> set (assemble_folders L threads folders)" and "x \<in> set (f_threads f)"
  shows "x \<in> set threads \<or> (\<exists>n' f'. (n', f') \<in> set folders \<and> x \<in> set (f_threads f'))"
  using assms
proof (induction threads arbitrary: folders)
  case Nil
  then show ?case by auto
next
  case (Cons t threads)
  from Cons.IH [of "add_to_folders L t folders"] Cons.prems
  consider "x \<in> set threads"
    | "\<exists>n' f'. (n', f') \<in> set (add_to_folders L t folders) \<and> x \<in> set (f_threads f')"
    by auto
  then show ?case
  proof cases
    case 1
    then show ?thesis by simp
  next
    case 2
    then obtain n' f' where "(n', f') \<in> set (add_to_folders L t folders)" "x \<in> set (f_threads f')"
      by blast
    from add_to_folders_threads [OF this] show ?thesis by auto
  qed
qed

lemma set_sort_reverse: "set (sort_reverse k xs) = set xs"
  by (simp add: sort_reverse_def)

lemma folder_sections_threads:
  assumes "f \<in> set (folder_sections_of L threads)" and "x \<in> set (f_threads f)"
  shows "x \<in> set threads"
proof -
  from assms(1) obtain n b where
    b: "(n, b) \<in> set (assemble_folders L threads [])" and
    f: "f = b\<lparr>f_threads := sort_reverse last_key (f_threads b)\<rparr>"
    by (auto simp: folder_sections_of_def Let_def)
  from assms(2) f have "x \<in> set (f_threads b)"
    by (simp add: set_sort_reverse)
  from assemble_folders_threads [OF b this] show ?thesis by simp
qed

lemma write_folder_pages_Some:
  "write_folder_pages fs pages slug = Some page \<Longrightarrow>
     pages slug = Some page \<or> (\<exists>f\<in>set fs. f_slug f = slug \<and> page = render_folder_html f)"
proof (induction fs arbitrary: pages)
  case Nil
  then show ?case by simp
next
  case (Cons f fs)
  from Cons.IH [OF Cons.prems [simplified]] show ?case
    by (auto split: if_splits)
qed

lemma fp_rows_render_folder_html:
  "fp_rows (render_folder_html f) = map folder_row_of (sort_key first_key (f_threads f))"
  by (simp add: render_folder_html_def Let_def)

lemma main_Inr:
  assumes "main L store_files export_files records = Inr site"
  obtains pages files threads where
    "main_loop L store_files records (Map.empty, export_files, []) = Inr (pages, files, threads)"
    and "site_threads site = pages" and "site_files site = files"
    and "site_folders site = write_folder_pages (folder_sections_of L threads) Map.empty"
    and "site_index site = render_index_html (folder_sections_of L threads)"
  using assms by (auto simp: main_def Let_def split: sum.splits)

text \<open>
  Claim C8. Every row of every folder table of an export belongs to a thread that
  \<^verbatim>\<open>main\<close> built from a record with a non-empty message list: the thread's
  \<^verbatim>\<open>message_count\<close> is the length of that list, and the reply count of the row is
  \<^verbatim>\<open>max(message_count - 1, 0)\<close>, which is not negative (here it is the number of messages
  after the first).
\<close>

theorem reply_counts:
  assumes "main L store_files export_files records = Inr site"
    and "site_folders site slug = Some page"
    and "row \<in> set (fp_rows page)"
  shows "\<exists>stem data m ms t.
           (stem, data) \<in> set records \<and> td_messages data = Some (m # ms) \<and>
           t = build_thread L stem data m (m # ms) \<and> row = folder_row_of t \<and>
           t_message_count t = int (length (m # ms)) \<and>
           row_replies row = max (t_message_count t - 1) 0 \<and> 0 \<le> row_replies row \<and>
           row_replies row = int (length ms)"
proof -
  from assms(1) obtain pages files threads where
    loop: "main_loop L store_files records (Map.empty, export_files, []) = Inr (pages, files, threads)"
    and folders: "site_folders site = write_folder_pages (folder_sections_of L threads) Map.empty"
    by (rule main_Inr)
  from assms(2) folders
  have "write_folder_pages (folder_sections_of L threads) Map.empty slug = Some page"
    by simp
  from write_folder_pages_Some [OF this]
  obtain f where f: "f \<in> set (folder_sections_of L threads)" and page: "page = render_folder_html f"
    by auto
  from assms(3) page obtain t where t: "t \<in> set (f_threads f)" and row: "row = folder_row_of t"
    by (auto simp: fp_rows_render_folder_html)
  from folder_sections_threads [OF f t] have "t \<in> set threads" .
  from main_loop_threads [OF loop this]
  obtain stem data m ms where rec: "(stem, data) \<in> set records"
    and msgs: "td_messages data = Some (m # ms)"
    and built: "t = build_thread L stem data m (m # ms)"
    by auto
  have count: "t_message_count t = int (length (m # ms))"
    by (simp add: built build_thread_def Let_def)
  have replies: "row_replies row = max (t_message_count t - 1) 0"
    by (simp add: row folder_row_of_def Let_def)
  with count have "0 \<le> row_replies row" "row_replies row = int (length ms)"
    by simp_all
  with rec msgs built row count replies show ?thesis
    by blast
qed

lemma render_messages_plain:
  "\<forall>msg\<in>set msgs. m_images msg = [] \<and> m_attachments msg = [] \<Longrightarrow>
     \<exists>rs. render_messages_from L store_files i n msgs files = Inr (rs, files)"
proof (induction msgs arbitrary: i)
  case Nil
  then show ?case by simp
next
  case (Cons msg msgs)
  then obtain rs where "render_messages_from L store_files (Suc i) n msgs files = Inr (rs, files)"
    by auto
  moreover from Cons.prems obtain r where "render_message L store_files i n msg files = Inr (r, files)"
    by (auto simp: render_message_def Let_def)
  ultimately show ?case by simp
qed

lemma sample_run:
  obtains pages where
    "main_loop sample_lib Map.empty [sample_record] (Map.empty, (Map.empty :: str \<rightharpoonup> nat), []) =
       Inr (pages, Map.empty,
            [build_thread sample_lib (py ''42'') (snd sample_record) sample_message_1
               [sample_message_1, sample_message_2]])"
proof -
  have "\<forall>msg\<in>set [sample_message_1, sample_message_2]. m_images msg = [] \<and> m_attachments msg = []"
    by (simp add: sample_message_1_def sample_message_2_def)
  from render_messages_plain [OF this]
  obtain rs where "render_messages sample_lib [sample_message_1, sample_message_2] Map.empty
      (Map.empty :: str \<rightharpoonup> nat) = Inr (rs, Map.empty)"
    unfolding render_messages_def by blast
  then have "\<exists>pages. main_loop sample_lib Map.empty [sample_record] (Map.empty, (Map.empty :: str \<rightharpoonup> nat), []) =
       Inr (pages, Map.empty,
            [build_thread sample_lib (py ''42'') (snd sample_record) sample_message_1
               [sample_message_1, sample_message_2]])"
    by (simp add: sample_record_def process_thread_def Let_def)
  then show ?thesis using that by blast
qed

lemma sample_thread_fields:
  "t_id (build_thread sample_lib stem (snd sample_record) m ms) = stem"
  "t_folder (build_thread sample_lib stem (snd sample_record) m ms) = py ''General''"
  "t_folder_slug (build_thread sample_lib stem (snd sample_record) m ms) = py ''general''"
  "t_message_count (build_thread sample_lib stem (snd sample_record) m ms) = int (length ms)"
  by (simp_all add: build_thread_def sample_record_def or_else_def Let_def slugify_def
      sample_lib_def ascii_lower_def slug_char_def strip_chars_def rstrip_chars_def)

lemma sample_sections:
  "folder_sections_of sample_lib
     [build_thread sample_lib (py ''42'') (snd sample_record) sample_message_1
        [sample_message_1, sample_message_2]] =
   [\<lparr>f_name = py ''General'', f_slug = py ''general'',
      f_threads = [build_thread sample_lib (py ''42'') (snd sample_record) sample_message_1
        [sample_message_1, sample_message_2]]\<rparr>]"
  by (simp add: folder_sections_of_def add_to_folders_def sample_thread_fields sort_reverse_def
      Let_def)

theorem reply_counts_witness:
  "\<exists>site page row.
     main sample_lib Map.empty (Map.empty :: str \<rightharpoonup> nat) [sample_record] = Inr site \<and>
     site_folders site (py ''general'') = Some page \<and>
     fp_rows page = [row] \<and> row_thread_id row = py ''42'' \<and> row_replies row = 1"
proof -
  define T where "T = build_thread sample_lib (py ''42'') (snd sample_record) sample_message_1
               [sample_message_1, sample_message_2]"
  obtain pages where loop:
    "main_loop sample_lib Map.empty [sample_record] (Map.empty, (Map.empty :: str \<rightharpoonup> nat), []) =
       Inr (pages, Map.empty, [T])"
    unfolding T_def by (rule sample_run)
  define F where "F = \<lparr>f_name = py ''General'', f_slug = py ''general'', f_threads = [T]\<rparr>"
  define site where "site = \<lparr>site_threads = pages,
      site_folders = write_folder_pages [F] Map.empty,
      site_index = render_index_html [F], site_files = (Map.empty :: str \<rightharpoonup> nat)\<rparr>"
  have run: "main sample_lib Map.empty (Map.empty :: str \<rightharpoonup> nat) [sample_record] = Inr site"
    using loop sample_sections by (simp add: main_def site_def F_def T_def)
  have page: "site_folders site (py ''general'') = Some (render_folder_html F)"
    by (simp add: site_def F_def)
  have rows: "fp_rows (render_folder_html F) = [folder_row_of T]"
    by (simp add: fp_rows_render_folder_html F_def)
  then have "folder_row_of T \<in> set (fp_rows (render_folder_html F))"
    by simp
  from reply_counts [OF run page this]
  obtain stem data m ms where "(stem, data) \<in> set [sample_record]"
    and "td_messages data = Some (m # ms)"
    and "row_replies (folder_row_of T) = int (length ms)"
    by blast
  then have "row_replies (folder_row_of T) = 1"
    by (auto simp: sample_record_def)
  moreover have "row_thread_id (folder_row_of T) = py ''42''"
    by (simp add: folder_row_of_def Let_def T_def sample_thread_fields html_escape_def)
  ultimately show ?thesis
    using run page rows by blast
qed

section \<open>The two orders of the threads of a folder\<close>

lemma key_le_iff:
  "(a :: dt_tuple \<times> str) \<le> b \<longleftrightarrow> fst a < fst b \<or> (fst a = fst b \<and> snd a \<le> snd b)"
proof -
  have "a \<le> b \<longleftrightarrow> fst a < fst b \<or> (fst a \<le> fst b \<and> snd a \<le> snd b)"
    by (rule less_eq_prod_def)
  also have "\<dots> \<longleftrightarrow> fst a < fst b \<or> (fst a = fst b \<and> snd a \<le> snd b)"
    using order_le_less [of "fst a" "fst b"] by blast
  finally show ?thesis .
qed

lemma key_le_fst:
  assumes "(a :: dt_tuple \<times> str) \<le> b"
  shows "fst a \<le> fst b"
proof -
  from assms have "fst a < fst b \<or> (fst a \<le> fst b \<and> snd a \<le> snd b)"
    by (rule iffD1 [OF less_eq_prod_def])
  then show ?thesis
    using order_less_imp_le [of "fst a" "fst b"] by blast
qed

lemma datetime_bounds:
  assumes "valid_datetime d"
  shows "dt_tuple datetime_min \<le> dt_tuple d" and "dt_tuple d \<le> dt_tuple datetime_max"
  using assms
  by (auto simp: valid_datetime_def dt_tuple_def datetime_min_def datetime_max_def
      less_eq_prod_def less_prod_def)

lemma mset_sort_reverse: "mset (sort_reverse k xs) = mset xs"
  by (simp add: sort_reverse_def)

lemma sorted_sort_reverse: "sorted (rev (map k (sort_reverse k xs)))"
  by (simp add: sort_reverse_def rev_map)

lemma folder_sections_sorted:
  assumes "f \<in> set (folder_sections_of L threads)"
  shows "\<exists>ts. f_threads f = sort_reverse last_key ts"
  using assms by (auto simp: folder_sections_of_def Let_def)

lemma index_cards:
  "is_cards (index_section_of f) =
     map (\<lambda>t. render_thread_card t []) (take INDEX_THREADS_PER_FOLDER (f_threads f))"
  by (simp add: index_section_of_def Let_def)

text \<open>
  Claim C4. For every folder of an export: the rows of its listing page are the threads of
  the folder in ascending order of the key (first date, identifier), where an absent first
  date counts as \<^verbatim>\<open>datetime.max\<close>, the latest possible date; the cards of its preview
  on the index are the first \<^verbatim>\<open>INDEX_THREADS_PER_FOLDER\<close> of the same threads in
  descending order of the key (last date, identifier), where an absent last date counts as
  \<^verbatim>\<open>datetime.min\<close>, the earliest possible date. Keys compare by the date first and by
  the identifier when the dates are equal, and every date lies between \<^verbatim>\<open>datetime.min\<close>
  and \<^verbatim>\<open>datetime.max\<close>. So in both orders a thread without the date is placed before a
  thread with the date only when that date is the bound itself, a tie that the identifier
  breaks: the threads without a date are at the end.
\<close>

theorem folder_orderings:
  assumes "f \<in> set (folder_sections_of L threads)"
  shows "(\<exists>listing.
            fp_rows (render_folder_html f) = map folder_row_of listing \<and>
            mset listing = mset (f_threads f) \<and> sorted (map first_key listing) \<and>
            (\<forall>i j d. i < j \<and> j < length listing \<and> t_first_date (listing ! i) = None \<and>
               t_first_date (listing ! j) = Some d \<and> valid_datetime d \<longrightarrow>
               dt_tuple d = dt_tuple datetime_max)) \<and>
         is_cards (index_section_of f) =
           map (\<lambda>t. render_thread_card t []) (take INDEX_THREADS_PER_FOLDER (f_threads f)) \<and>
         sorted (rev (map last_key (f_threads f))) \<and>
         (\<forall>i j d. i < j \<and> j < length (f_threads f) \<and> t_last_date (f_threads f ! i) = None \<and>
            t_last_date (f_threads f ! j) = Some d \<and> valid_datetime d \<longrightarrow>
            dt_tuple d = dt_tuple datetime_min) \<and>
         (\<forall>a b. first_key a \<le> first_key b \<longleftrightarrow>
            dt_tuple (case t_first_date a of None \<Rightarrow> datetime_max | Some d \<Rightarrow> d)
              < dt_tuple (case t_first_date b of None \<Rightarrow> datetime_max | Some d \<Rightarrow> d) \<or>
            dt_tuple (case t_first_date a of None \<Rightarrow> datetime_max | Some d \<Rightarrow> d)
              = dt_tuple (case t_first_date b of None \<Rightarrow> datetime_max | Some d \<Rightarrow> d) \<and>
            t_id a \<le> t_id b) \<and>
         (\<forall>a b. last_key a \<le> last_key b \<longleftrightarrow>
            dt_tuple (case t_last_date a of None \<Rightarrow> datetime_min | Some d \<Rightarrow> d)
              < dt_tuple (case t_last_date b of None \<Rightarrow> datetime_min | Some d \<Rightarrow> d) \<or>
            dt_tuple (case t_last_date a of None \<Rightarrow> datetime_min | Some d \<Rightarrow> d)
              = dt_tuple (case t_last_date b of None \<Rightarrow> datetime_min | Some d \<Rightarrow> d) \<and>
            t_id a \<le> t_id b) \<and>
         (\<forall>d. valid_datetime d \<longrightarrow>
            dt_tuple datetime_min \<le> dt_tuple d \<and> dt_tuple d \<le> dt_tuple datetime_max)"
proof -
  define listing where "listing = sort_key first_key (f_threads f)"
  have l1: "fp_rows (render_folder_html f) = map folder_row_of listing"
    by (simp add: listing_def fp_rows_render_folder_html)
  have l2: "mset listing = mset (f_threads f)" and l3: "sorted (map first_key listing)"
    by (simp_all add: listing_def)
  have listing_end: "dt_tuple d = dt_tuple datetime_max"
    if "i < j" "j < length listing" "t_first_date (listing ! i) = None"
      "t_first_date (listing ! j) = Some d" "valid_datetime d" for i j d
  proof -
    have "map first_key listing ! i \<le> map first_key listing ! j"
      using l3 that(1,2) by (intro sorted_nth_mono) simp_all
    then have "first_key (listing ! i) \<le> first_key (listing ! j)"
      using that(1,2) by simp
    then have "fst (first_key (listing ! i)) \<le> fst (first_key (listing ! j))"
      by (rule key_le_fst)
    then have "dt_tuple datetime_max \<le> dt_tuple d"
      using that(3,4) by (simp add: first_key_def)
    with datetime_bounds(2) [OF that(5)] show ?thesis by simp
  qed
  then have l4: "\<forall>i j d. i < j \<and> j < length listing \<and> t_first_date (listing ! i) = None \<and>
               t_first_date (listing ! j) = Some d \<and> valid_datetime d \<longrightarrow>
               dt_tuple d = dt_tuple datetime_max"
    by blast
  have rows: "\<exists>listing.
            fp_rows (render_folder_html f) = map folder_row_of listing \<and>
            mset listing = mset (f_threads f) \<and> sorted (map first_key listing) \<and>
            (\<forall>i j d. i < j \<and> j < length listing \<and> t_first_date (listing ! i) = None \<and>
               t_first_date (listing ! j) = Some d \<and> valid_datetime d \<longrightarrow>
               dt_tuple d = dt_tuple datetime_max)"
    by (intro exI [of _ listing] conjI l1 l2 l3 l4)
  from folder_sections_sorted [OF assms] obtain ts where "f_threads f = sort_reverse last_key ts"
    by blast
  then have preview: "sorted (rev (map last_key (f_threads f)))"
    by (simp add: sorted_sort_reverse)
  have "dt_tuple d = dt_tuple datetime_min"
    if "i < j" "j < length (f_threads f)" "t_last_date (f_threads f ! i) = None"
      "t_last_date (f_threads f ! j) = Some d" "valid_datetime d" for i j d
  proof -
    have "sorted (rev (map last_key (f_threads f)))" by (rule preview)
    then have "map last_key (f_threads f) ! j \<le> map last_key (f_threads f) ! i"
      using that(1,2) by (intro sorted_rev_nth_mono) simp_all
    then have "last_key (f_threads f ! j) \<le> last_key (f_threads f ! i)"
      using that(1,2) by simp
    then have "fst (last_key (f_threads f ! j)) \<le> fst (last_key (f_threads f ! i))"
      by (rule key_le_fst)
    then have "dt_tuple d \<le> dt_tuple datetime_min"
      using that(3,4) by (simp add: last_key_def)
    with datetime_bounds(1) [OF that(5)] show ?thesis by simp
  qed
  then have preview_end: "\<forall>i j d. i < j \<and> j < length (f_threads f) \<and>
      t_last_date (f_threads f ! i) = None \<and> t_last_date (f_threads f ! j) = Some d \<and>
      valid_datetime d \<longrightarrow> dt_tuple d = dt_tuple datetime_min"
    by blast
  have first: "\<forall>a b. first_key a \<le> first_key b \<longleftrightarrow>
            dt_tuple (case t_first_date a of None \<Rightarrow> datetime_max | Some d \<Rightarrow> d)
              < dt_tuple (case t_first_date b of None \<Rightarrow> datetime_max | Some d \<Rightarrow> d) \<or>
            dt_tuple (case t_first_date a of None \<Rightarrow> datetime_max | Some d \<Rightarrow> d)
              = dt_tuple (case t_first_date b of None \<Rightarrow> datetime_max | Some d \<Rightarrow> d) \<and>
            t_id a \<le> t_id b"
    by (intro allI, subst key_le_iff) (simp add: first_key_def)
  have last: "\<forall>a b. last_key a \<le> last_key b \<longleftrightarrow>
            dt_tuple (case t_last_date a of None \<Rightarrow> datetime_min | Some d \<Rightarrow> d)
              < dt_tuple (case t_last_date b of None \<Rightarrow> datetime_min | Some d \<Rightarrow> d) \<or>
            dt_tuple (case t_last_date a of None \<Rightarrow> datetime_min | Some d \<Rightarrow> d)
              = dt_tuple (case t_last_date b of None \<Rightarrow> datetime_min | Some d \<Rightarrow> d) \<and>
            t_id a \<le> t_id b"
    by (intro allI, subst key_le_iff) (simp add: last_key_def)
  have bounds: "\<forall>d. valid_datetime d \<longrightarrow>
            dt_tuple datetime_min \<le> dt_tuple d \<and> dt_tuple d \<le> dt_tuple datetime_max"
    using datetime_bounds by blast
  show ?thesis
    by (intro conjI rows index_cards preview preview_end first last bounds)
qed

lemma sample_threads_sections:
  "folder_sections_of sample_lib sample_threads =
     [\<lparr>f_name = py ''General'', f_slug = py ''general'',
       f_threads =
         [sample_threads ! 2, sample_threads ! 1, sample_threads ! 3, sample_threads ! 0]\<rparr>]"
  by (simp add: folder_sections_of_def add_to_folders_def sort_reverse_def Let_def
      sample_threads_def sample_thread_def sample_date_def last_key_def dt_tuple_def
      datetime_min_def less_eq_prod_def less_prod_def)

theorem folder_orderings_witness:
  "\<exists>f. f \<in> set (folder_sections_of sample_lib sample_threads) \<and>
     map row_thread_id (fp_rows (render_folder_html f)) = [py ''3'', py ''2'', py ''1'', py ''4''] \<and>
     map tc_link (is_cards (index_section_of f)) =
       [py ''threads/3.html'', py ''threads/2.html'', py ''threads/4.html'', py ''threads/1.html''] \<and>
     sorted (rev (map last_key (f_threads f))) \<and>
     (\<exists>listing. fp_rows (render_folder_html f) = map folder_row_of listing \<and>
        mset listing = mset (f_threads f) \<and> sorted (map first_key listing) \<and>
        (\<forall>i j d. i < j \<and> j < length listing \<and> t_first_date (listing ! i) = None \<and>
           t_first_date (listing ! j) = Some d \<and> valid_datetime d \<longrightarrow>
           dt_tuple d = dt_tuple datetime_max))"
proof -
  define F where "F = \<lparr>f_name = py ''General'', f_slug = py ''general'',
       f_threads =
         [sample_threads ! 2, sample_threads ! 1, sample_threads ! 3, sample_threads ! 0]\<rparr>"
  have mem: "F \<in> set (folder_sections_of sample_lib sample_threads)"
    by (simp add: sample_threads_sections F_def)
  note spec = folder_orderings [OF mem]
  have rows: "map row_thread_id (fp_rows (render_folder_html F)) =
      [py ''3'', py ''2'', py ''1'', py ''4'']"
    by (simp add: fp_rows_render_folder_html F_def folder_row_of_def Let_def html_escape_def
      sample_threads_def sample_thread_def sample_date_def first_key_def dt_tuple_def
      datetime_max_def less_eq_prod_def less_prod_def)
  have cards: "map tc_link (is_cards (index_section_of F)) =
       [py ''threads/3.html'', py ''threads/2.html'', py ''threads/4.html'', py ''threads/1.html'']"
    by (simp add: index_cards INDEX_THREADS_PER_FOLDER_def F_def render_thread_card_def Let_def
      sample_threads_def sample_thread_def)
  note listing = spec [THEN conjunct1]
  note preview = spec [THEN conjunct2, THEN conjunct2, THEN conjunct1]
  show ?thesis
    by (intro exI [of _ F] conjI mem rows cards preview listing)
qed

end
